theory Spec2Isabelle
  imports Main "HOL-Library.Word" "HOL-Library.Signed_Division" "HOL-Library.Monad_Syntax"
begin

section \<open>Python text primitives\<close>

text \<open>
  Source text, file names and module text are Python \<open>str\<close> values. They are modelled as
  \<open>string\<close>: a character is a code point below 256, and the character classes below are
  the ones Python's \<open>re\<close> module and \<open>str.lower\<close> use for \<open>str\<close> values on that range.
\<close>

definition is_space :: "char \<Rightarrow> bool" where
  \<comment> \<open>\<open>\s\<close>: tab, line feed, vertical tab, form feed, carriage return, the four
      separators 28 to 31, space, NEL and the no-break space\<close>
  "is_space c = (let n = (of_char c :: nat) in
     (9 \<le> n \<and> n \<le> 13) \<or> (28 \<le> n \<and> n \<le> 32) \<or> n = 133 \<or> n = 160)"

definition is_digit :: "char \<Rightarrow> bool" where
  \<comment> \<open>\<open>\d\<close>: the decimal digits\<close>
  "is_digit c = (let n = (of_char c :: nat) in 48 \<le> n \<and> n \<le> 57)"

definition is_word :: "char \<Rightarrow> bool" where
  \<comment> \<open>\<open>\w\<close>: alphanumeric characters and the underscore\<close>
  "is_word c = (let n = (of_char c :: nat) in
     (48 \<le> n \<and> n \<le> 57) \<or> (65 \<le> n \<and> n \<le> 90) \<or> n = 95 \<or> (97 \<le> n \<and> n \<le> 122) \<or>
     n = 170 \<or> n = 178 \<or> n = 179 \<or> n = 181 \<or> n = 185 \<or> n = 186 \<or>
     (188 \<le> n \<and> n \<le> 190) \<or> (192 \<le> n \<and> n \<le> 214) \<or> (216 \<le> n \<and> n \<le> 246) \<or>
     (248 \<le> n \<and> n \<le> 255))"

definition lower_char :: "char \<Rightarrow> char" where
  "lower_char c = (let n = (of_char c :: nat) in
     if (65 \<le> n \<and> n \<le> 90) \<or> (192 \<le> n \<and> n \<le> 214) \<or> (216 \<le> n \<and> n \<le> 222)
     then char_of (n + 32) else c)"

definition lower :: "string \<Rightarrow> string" where
  \<comment> \<open>\<open>s.lower()\<close>\<close>
  "lower s = map lower_char s"

fun starts_with :: "string \<Rightarrow> string \<Rightarrow> bool" where
  \<comment> \<open>\<open>starts_with p s\<close> is \<open>s.startswith(p)\<close>\<close>
  "starts_with [] s = True"
| "starts_with (p # ps) [] = False"
| "starts_with (p # ps) (c # cs) = (p = c \<and> starts_with ps cs)"

fun contains :: "string \<Rightarrow> string \<Rightarrow> bool" where
  \<comment> \<open>\<open>contains sub s\<close> is \<open>sub in s\<close>\<close>
  "contains sub [] = (sub = [])"
| "contains sub (c # cs) = (starts_with sub (c # cs) \<or> contains sub cs)"

fun find_first :: "string \<Rightarrow> string \<Rightarrow> nat option" where
  \<comment> \<open>lowest index at which \<open>sub\<close> occurs\<close>
  "find_first sub [] = (if sub = [] then Some 0 else None)"
| "find_first sub (c # cs) =
     (if starts_with sub (c # cs) then Some 0 else map_option Suc (find_first sub cs))"

fun find_last :: "string \<Rightarrow> string \<Rightarrow> nat option" where
  \<comment> \<open>highest index at which \<open>sub\<close> occurs\<close>
  "find_last sub [] = (if sub = [] then Some 0 else None)"
| "find_last sub (c # cs) =
     (case find_last sub cs of
        Some i \<Rightarrow> Some (Suc i)
      | None \<Rightarrow> if starts_with sub (c # cs) then Some 0 else None)"

definition py_find :: "string \<Rightarrow> string \<Rightarrow> int \<Rightarrow> int" where
  \<comment> \<open>\<open>s.find(sub, start)\<close>: a negative start counts from the end, the result is -1
      when \<open>sub\<close> does not occur at or after the start\<close>
  "py_find s sub start =
     (let n = int (length s);
          st = (if start < 0 then max 0 (start + n) else start)
      in if n < st then - 1
         else (case find_first sub (drop (nat st) s) of
                 None \<Rightarrow> - 1
               | Some i \<Rightarrow> st + int i))"

definition py_rfind :: "string \<Rightarrow> string \<Rightarrow> int" where
  \<comment> \<open>\<open>s.rfind(sub)\<close>\<close>
  "py_rfind s sub = (case find_last sub s of None \<Rightarrow> - 1 | Some i \<Rightarrow> int i)"

definition slice_to :: "string \<Rightarrow> int \<Rightarrow> string" where
  \<comment> \<open>\<open>s[:k]\<close>\<close>
  "slice_to s k = (if 0 \<le> k then take (nat k) s else take (length s - nat (- k)) s)"

definition slice_from :: "string \<Rightarrow> int \<Rightarrow> string" where
  \<comment> \<open>\<open>s[k:]\<close>\<close>
  "slice_from s k = (if 0 \<le> k then drop (nat k) s else drop (length s - nat (- k)) s)"

fun replace :: "string \<Rightarrow> string \<Rightarrow> string \<Rightarrow> string" where
  \<comment> \<open>\<open>replace old new s\<close> is \<open>s.replace(old, new)\<close>: the occurrences are taken from the
      left and do not overlap; an empty \<open>old\<close> matches before every character and at the end\<close>
  "replace old new [] = (if old = [] then new else [])"
| "replace old new (c # cs) =
     (if old = [] then new @ c # replace old new cs
      else if starts_with old (c # cs)
      then new @ replace old new (drop (length old) (c # cs))
      else c # replace old new cs)"

definition newline :: char where
  "newline = CHR 0x0A"

fun join_lines :: "string list \<Rightarrow> string" where
  \<comment> \<open>the lines of a multi-line literal, with a line feed between two lines\<close>
  "join_lines [] = []"
| "join_lines [l] = l"
| "join_lines (l # ls) = l @ newline # join_lines ls"

subsection \<open>Exceptions\<close>

text \<open>
  An exception is a value: a function that can raise returns \<open>Inl\<close> of the exception or
  \<open>Inr\<close> of its result. The two classes that the pipeline can meet are \<open>ValueError\<close>,
  from \<open>int\<close>, and \<open>OSError\<close>, from the file system; both are subclasses of
  \<open>Exception\<close>.
\<close>

datatype exn = OSError string | ValueError string

definition str_exn :: "exn \<Rightarrow> string" where
  \<comment> \<open>\<open>str(e)\<close>\<close>
  "str_exn e = (case e of OSError msg \<Rightarrow> msg | ValueError msg \<Rightarrow> msg)"

subsection \<open>Integers and their decimal text\<close>

fun str_nat :: "nat \<Rightarrow> string" where
  "str_nat n = (if n < 10 then [''0123456789'' ! n]
                else str_nat (n div 10) @ [''0123456789'' ! (n mod 10)])"

declare str_nat.simps [simp del]

definition digit_val :: "char \<Rightarrow> nat" where
  "digit_val c = of_char c - 48"

definition max_str_digits :: nat where
  \<comment> \<open>the default of \<open>sys.get_int_max_str_digits()\<close>, which the source does not change\<close>
  "max_str_digits = 4300"

definition py_int :: "string \<Rightarrow> exn + int" where
  \<comment> \<open>\<open>int(ds)\<close> for a non-empty run of decimal digits: a run of more than 4300 digits
      raises \<open>ValueError\<close>\<close>
  "py_int ds =
     (if max_str_digits < length ds
      then Inl (ValueError
             (''Exceeds the limit (4300 digits) for integer string conversion: value has ''
              @ str_nat (length ds)
              @ '' digits; use sys.set_int_max_str_digits() to increase the limit''))
      else Inr (int (foldl (\<lambda>a c. 10 * a + digit_val c) 0 ds)))"

definition str_int :: "int \<Rightarrow> string" where
  \<comment> \<open>\<open>str(v)\<close>, which is what an f-string writes for \<open>{v}\<close>\<close>
  "str_int v = (if v < 0 then CHR ''-'' # str_nat (nat (- v)) else str_nat (nat v))"

section \<open>Regular expressions of the source\<close>

text \<open>
  The source uses a handful of fixed regular expressions. Each one is modelled by a matcher
  that tries it at the head of a text and returns what it captured together with the text
  left after the match. A greedy repetition of these patterns is followed by a character
  outside the repeated class, so giving back characters can never help and the matcher
  takes the longest run, as the backtracking engine ends up doing. The one exception is
  the pattern of the I/O calls, where the engine gives back exactly one character.
\<close>

type_synonym 'g matcher = "string \<Rightarrow> ('g \<times> string) option"

definition lit :: "string \<Rightarrow> string \<Rightarrow> string option" where
  \<comment> \<open>a literal\<close>
  "lit p s = (if starts_with p s then Some (drop (length p) s) else None)"

definition spaces0 :: "string \<Rightarrow> string" where
  \<comment> \<open>\<open>\s*\<close>\<close>
  "spaces0 s = dropWhile is_space s"

definition spaces1 :: "string \<Rightarrow> string option" where
  \<comment> \<open>\<open>\s+\<close>\<close>
  "spaces1 s = (case s of [] \<Rightarrow> None | c # cs \<Rightarrow> if is_space c then Some (spaces0 cs) else None)"

definition digits1 :: "string \<Rightarrow> (string \<times> string) option" where
  \<comment> \<open>\<open>(\d+)\<close>\<close>
  "digits1 s = (if takeWhile is_digit s = [] then None
                else Some (takeWhile is_digit s, dropWhile is_digit s))"

definition until1 :: "char \<Rightarrow> string \<Rightarrow> string option" where
  \<comment> \<open>\<open>[^x]+x\<close>: a non-empty run of characters other than \<open>x\<close>, then \<open>x\<close>\<close>
  "until1 x s = (if takeWhile (\<lambda>c. c \<noteq> x) s = [] \<or> dropWhile (\<lambda>c. c \<noteq> x) s = [] then None
                 else Some (tl (dropWhile (\<lambda>c. c \<noteq> x) s)))"

definition until0 :: "char \<Rightarrow> string \<Rightarrow> string option" where
  \<comment> \<open>\<open>[^x]*x\<close>\<close>
  "until0 x s = (if dropWhile (\<lambda>c. c \<noteq> x) s = [] then None
                 else Some (tl (dropWhile (\<lambda>c. c \<noteq> x) s)))"

definition match_assign :: "string \<Rightarrow> string matcher" where
  \<comment> \<open>\<open>{var}\s*=\s*(\d+)\<close>; the names the source passes are plain identifiers\<close>
  "match_assign var s = do {
     r1 \<leftarrow> lit var s;
     r2 \<leftarrow> lit ''='' (spaces0 r1);
     digits1 (spaces0 r2)
   }"

definition match_call :: "string \<Rightarrow> string matcher" where
  \<comment> \<open>\<open>{func_name}\s*\(\s*(\d+)\s*\)\<close>\<close>
  "match_call f s = do {
     r1 \<leftarrow> lit f s;
     r2 \<leftarrow> lit ''('' (spaces0 r1);
     (ds, r3) \<leftarrow> digits1 (spaces0 r2);
     r4 \<leftarrow> lit '')'' (spaces0 r3);
     Some (ds, r4)
   }"

fun match_alt_assign :: "string list \<Rightarrow> string matcher" where
  \<comment> \<open>\<open>(?:v1|v2|...)\s*=\s*(\d+)\<close>: the alternatives are tried in order\<close>
  "match_alt_assign [] s = None"
| "match_alt_assign (v # vs) s =
     (case match_assign v s of Some r \<Rightarrow> Some r | None \<Rightarrow> match_alt_assign vs s)"

definition match_io :: "string \<Rightarrow> unit matcher" where
  \<comment> \<open>\<open>printf\s*\([^;]+\);\<close> and the same for \<open>scanf\<close>: the run of characters other
      than \<open>;\<close> stops at the first \<open>;\<close>, and the \<open>)\<close> of the pattern has to be the
      last character of that run, after at least one other character\<close>
  "match_io name s = do {
     r1 \<leftarrow> lit name s;
     r2 \<leftarrow> lit ''('' (spaces0 r1);
     (let run = takeWhile (\<lambda>c. c \<noteq> CHR '';'') r2;
          rest = dropWhile (\<lambda>c. c \<noteq> CHR '';'') r2
      in if 2 \<le> length run \<and> last run = CHR '')'' \<and> rest \<noteq> [] then Some ((), tl rest)
         else None)
   }"

definition match_main :: "unit matcher" where
  \<comment> \<open>\<open>int32_t\s+main\s*\([^)]*\)\<close>\<close>
  "match_main s = do {
     r1 \<leftarrow> lit ''int32_t'' s;
     r2 \<leftarrow> spaces1 r1;
     r3 \<leftarrow> lit ''main'' r2;
     r4 \<leftarrow> lit ''('' (spaces0 r3);
     r5 \<leftarrow> until0 (CHR '')'') r4;
     Some ((), r5)
   }"

definition match_include :: "unit matcher" where
  \<comment> \<open>\<open>#include\s*<[^>]+>\<close>\<close>
  "match_include s = do {
     r1 \<leftarrow> lit ''#include'' s;
     r2 \<leftarrow> lit ''<'' (spaces0 r1);
     r3 \<leftarrow> until1 (CHR ''>'') r2;
     Some ((), r3)
   }"

definition match_malloc :: "string matcher" where
  \<comment> \<open>\<open>(\w+)\s*=\s*malloc\([^)]+\)\<close>\<close>
  "match_malloc s =
     (if takeWhile is_word s = [] then None
      else do {
        r2 \<leftarrow> lit ''='' (spaces0 (dropWhile is_word s));
        r3 \<leftarrow> lit ''malloc('' (spaces0 r2);
        r4 \<leftarrow> until1 (CHR '')'') r3;
        Some (takeWhile is_word s, r4)
      })"

definition match_free :: "unit matcher" where
  \<comment> \<open>\<open>free\s*\([^)]+\);\<close>\<close>
  "match_free s = do {
     r1 \<leftarrow> lit ''free'' s;
     r2 \<leftarrow> lit ''('' (spaces0 r1);
     r3 \<leftarrow> until1 (CHR '')'') r2;
     r4 \<leftarrow> lit '';'' r3;
     Some ((), r4)
   }"

text \<open>
  \<open>re.search\<close> tries the pattern at every position from the left and returns the first
  match. \<open>re.sub\<close> replaces the matches found from the left, each search starting where
  the last match ended. \<open>re.finditer\<close> yields the same matches; the source keeps the end
  of the last one. No pattern of the source matches the empty text; a match that consumes
  nothing is treated as no match.
\<close>

fun re_search :: "'g matcher \<Rightarrow> string \<Rightarrow> 'g option" where
  "re_search m [] = None"
| "re_search m (c # cs) =
     (case m (c # cs) of Some (g, rest) \<Rightarrow> Some g | None \<Rightarrow> re_search m cs)"

fun re_sub :: "'g matcher \<Rightarrow> ('g \<Rightarrow> string) \<Rightarrow> string \<Rightarrow> string" where
  "re_sub m repl [] = []"
| "re_sub m repl (c # cs) =
     (case m (c # cs) of
        Some (g, rest) \<Rightarrow>
          if length rest \<le> length cs then repl g @ re_sub m repl rest
          else c # re_sub m repl cs
      | None \<Rightarrow> c # re_sub m repl cs)"

fun last_match_end :: "'g matcher \<Rightarrow> nat \<Rightarrow> nat \<Rightarrow> string \<Rightarrow> nat" where
  \<comment> \<open>\<open>last_match_end m pos e s\<close>: \<open>s\<close> is the text from position \<open>pos\<close> on, \<open>e\<close> the end
      of the last match so far\<close>
  "last_match_end m pos e [] = e"
| "last_match_end m pos e (c # cs) =
     (case m (c # cs) of
        Some (g, rest) \<Rightarrow>
          if length rest \<le> length cs
          then last_match_end m (pos + (Suc (length cs) - length rest))
                 (pos + (Suc (length cs) - length rest)) rest
          else last_match_end m (Suc pos) e cs
      | None \<Rightarrow> last_match_end m (Suc pos) e cs)"

text \<open>
  \<open>re.sub(r'\bKW\s+', 'int32_t ', code)\<close> for a keyword \<open>KW\<close> of word characters. \<open>\b\<close>
  holds before the keyword when the character before it is not a word character, or at
  the start of the text: \<open>pw\<close> tells whether the character before the head of the text is
  a word character. A match takes all the white space after the keyword.
\<close>

definition match_kw :: "string \<Rightarrow> string \<Rightarrow> string option" where
  \<comment> \<open>\<open>KW\s+\<close> at the head of the text\<close>
  "match_kw kw s = do { r1 \<leftarrow> lit kw s; spaces1 r1 }"

fun sub_kw :: "string \<Rightarrow> bool \<Rightarrow> string \<Rightarrow> string" where
  "sub_kw kw pw [] = []"
| "sub_kw kw pw (c # cs) =
     (case (if pw then None else match_kw kw (c # cs)) of
        Some rest \<Rightarrow>
          if length rest \<le> length cs then ''int32_t '' @ sub_kw kw False rest
          else c # sub_kw kw (is_word c) cs
      | None \<Rightarrow> c # sub_kw kw (is_word c) cs)"

section \<open>The source normalizer\<close>

text \<open>
  \<open>transform_for_zkengine\<close> threads the working text and the change list through five
  blocks. Each block is a function of the two; the change list grows at its end.
\<close>

definition add_stdint :: "string \<Rightarrow> string list \<Rightarrow> string \<times> string list" where
  \<comment> \<open>add \<open>stdint.h\<close> if not present: after the line of the last \<open>#include\<close>, at the end
      when that line has no line feed, at the top when there is no \<open>#include\<close>\<close>
  "add_stdint code changes =
     (if \<not> contains ''int32_t'' code \<and> (contains ''int '' code \<or> contains ''float '' code)
      then
        if \<not> contains ''#include <stdint.h>'' code
        then
          (let include_pos = py_rfind code ''#include'' in
           if 0 \<le> include_pos
           then
             (let newline_pos = py_find code [newline] include_pos in
              if 0 \<le> newline_pos
              then slice_to code (newline_pos + 1) @ ''#include <stdint.h>'' @ [newline]
                     @ slice_from code (newline_pos + 1)
              else code @ [newline] @ ''#include <stdint.h>'' @ [newline])
           else ''#include <stdint.h>'' @ [newline, newline] @ code,
           changes @ [''Added #include <stdint.h>''])
        else (code, changes)
      else (code, changes))"

definition type_conversions :: "string \<Rightarrow> string list \<Rightarrow> string \<times> string list" where
  \<comment> \<open>the two substitutions, then the entry, which no condition guards\<close>
  "type_conversions code changes =
     (sub_kw ''float'' False (sub_kw ''int'' False code),
      changes @ [''Converted int/float to int32_t''])"

definition remove_io :: "string \<Rightarrow> string \<Rightarrow> string \<Rightarrow> string list \<Rightarrow> string \<times> string list" where
  \<comment> \<open>one of the two I/O blocks: \<open>name\<close> is \<open>printf\<close> or \<open>scanf\<close>\<close>
  "remove_io name entry code changes =
     (if contains name code
      then (re_sub (match_io name) (\<lambda>_. ''/* '' @ name @ '' removed */;'') code,
            changes @ [entry])
      else (code, changes))"

definition fix_main :: "string \<Rightarrow> string list \<Rightarrow> string \<times> string list" where
  "fix_main code changes =
     (case re_search match_main code of
        Some _ \<Rightarrow> (re_sub match_main (\<lambda>_. ''int32_t main()'') code,
                   changes @ [''Fixed main signature for hardcoded values''])
      | None \<Rightarrow> (code, changes))"

definition define_buffer_size :: "string \<Rightarrow> string" where
  \<comment> \<open>the inner block of the allocation rule: the definition goes after the last
      \<open>#include <...>\<close>, or to the top\<close>
  "define_buffer_size code =
     (if \<not> contains ''#define BUFFER_SIZE'' code
      then
        (let includes_end = last_match_end match_include 0 0 code in
         if 0 < includes_end
         then take includes_end code @ [newline] @ ''#define BUFFER_SIZE 1000'' @ [newline]
                @ drop includes_end code
         else ''#define BUFFER_SIZE 1000'' @ [newline] @ code)
      else code)"

definition declare_stack_buffer :: "string \<Rightarrow> string" where
  \<comment> \<open>the buffer goes after the first brace at or after \<open>main\<close>; when there is no \<open>main\<close>
      the search starts at index -1, the last character\<close>
  "declare_stack_buffer code =
     (let main_start = py_find code ''{'' (py_find code ''main'' 0) in
      if 0 < main_start
      then slice_to code (main_start + 1) @ [newline] @ ''    int32_t stack_buffer[BUFFER_SIZE];''
             @ [newline] @ slice_from code (main_start + 1)
      else code)"

definition convert_malloc :: "string \<Rightarrow> string list \<Rightarrow> string \<times> string list" where
  "convert_malloc code changes =
     (if contains ''malloc'' code
      then
        (let code1 = define_buffer_size code;
             code2 = re_sub match_malloc (\<lambda>g. g @ '' = (int32_t*)stack_buffer'') code1;
             code3 = re_sub match_free (\<lambda>_. ''/* free removed */;'') code2
         in (declare_stack_buffer code3, changes @ [''Converted dynamic allocation to stack'']))
      else (code, changes))"

definition transform_for_zkengine :: "string \<Rightarrow> string \<times> string list" where
  "transform_for_zkengine code =
     (let (code1, changes1) = add_stdint code [];
          (code2, changes2) = type_conversions code1 changes1;
          (code3, changes3) = remove_io ''printf'' ''Removed printf statements'' code2 changes2;
          (code4, changes4) = remove_io ''scanf'' ''Removed scanf statements'' code3 changes3;
          (code5, changes5) = fix_main code4 changes4
      in convert_malloc code5 changes5)"

section \<open>Fingerprint matching and parameter extraction\<close>

text \<open>
  \<open>generate_wat_from_c_analysis\<close> is one chain of \<open>if\<close> and \<open>elif\<close>: each branch tests the
  cue of a family, extracts the parameters and returns the module text of that family.
  The model names the value between the two halves of a branch, the fingerprint. A
  branch raises when \<open>int\<close> raises on the digits that a probe has found.
\<close>

datatype fingerprint =
    PrimalityCheck int
  | CollatzSteps int
  | DigitalRoot int
  | Fibonacci int
  | Factorial int
  | EuclidGCD int int
  | Unrecognized

definition truthy :: "string option \<Rightarrow> bool" where
  \<comment> \<open>\<open>if func_name:\<close> holds for a non-empty text\<close>
  "truthy f = (case f of None \<Rightarrow> False | Some n \<Rightarrow> n \<noteq> [])"

fun extract_value :: "string \<Rightarrow> string list \<Rightarrow> string option \<Rightarrow> int \<Rightarrow> exn + int" where
  \<comment> \<open>the loop over \<open>var_names\<close>: both probes are in the loop body\<close>
  "extract_value code [] func_name dflt = Inr dflt"
| "extract_value code (var # var_names) func_name dflt =
     (case re_search (match_assign var) code of
        Some ds \<Rightarrow> py_int ds
      | None \<Rightarrow>
          (case (if truthy func_name then re_search (match_call (the func_name)) code else None) of
             Some ds \<Rightarrow> py_int ds
           | None \<Rightarrow> extract_value code var_names func_name dflt))"

definition gcd_operand :: "string list \<Rightarrow> int \<Rightarrow> string \<Rightarrow> exn + int" where
  \<comment> \<open>\<open>int(m.group(1)) if m else default\<close> for one operand of the GCD family\<close>
  "gcd_operand names dflt code =
     (case re_search (match_alt_assign names) code of
        Some ds \<Rightarrow> py_int ds
      | None \<Rightarrow> Inr dflt)"

definition match_fingerprint :: "string \<Rightarrow> exn + fingerprint" where
  \<comment> \<open>\<open>map_sum id C r\<close> is \<open>C v\<close> when \<open>r\<close> is the value \<open>v\<close>, and the exception of
      \<open>r\<close> otherwise; in the GCD branch the first operand is converted first\<close>
  "match_fingerprint code =
     (if contains ''is_prime'' code
      then map_sum id PrimalityCheck
             (extract_value code [''number_to_check'', ''n'', ''num''] (Some ''is_prime'') 17)
      else if contains ''collatz'' (lower code)
      then map_sum id CollatzSteps
             (extract_value code [''starting_number'', ''start'', ''n''] (Some ''collatz'') 27)
      else if contains ''digital_root'' code \<or> contains ''digit_sum'' code
      then map_sum id DigitalRoot
             (extract_value code [''input_number'', ''num'', ''n''] (Some ''digital_root'') 12345)
      else if contains ''fibonacci'' code
      then map_sum id Fibonacci
             (extract_value code [''n'', ''num'', ''value''] (Some ''fibonacci'') 10)
      else if contains ''factorial'' code
      then map_sum id Factorial
             (extract_value code [''n'', ''num'', ''value''] (Some ''factorial'') 5)
      else if contains ''gcd'' code \<or> contains ''greatest_common'' code
      then (case gcd_operand [''a'', ''x'', ''first''] 48 code of
              Inl x \<Rightarrow> Inl x
            | Inr a \<Rightarrow>
                (case gcd_operand [''b'', ''y'', ''second''] 18 code of
                   Inl x \<Rightarrow> Inl x
                 | Inr b \<Rightarrow> Inr (EuclidGCD a b)))
      else Inr Unrecognized)"

section \<open>The module templates\<close>

definition prime_wat :: "int \<Rightarrow> string" where
  \<open>prime_wat v = join_lines
    [''(module'',
     ''  ;; Prime checker for '' @ str_int v @ '' - REAL ALGORITHM'',
     ''  (func (export "main") (param $dummy i32) (result i32)'',
     ''    (local $n i32)'',
     ''    (local $i i32)'',
     ''    '',
     ''    ;; Set n = '' @ str_int v,
     ''    (local.set $n (i32.const '' @ str_int v @ ''))'',
     ''    '',
     ''    ;; Check if less than 2'',
     ''    (if (i32.lt_s (local.get $n) (i32.const 2))'',
     ''      (then (return (i32.const 0)))'',
     ''    )'',
     ''    '',
     ''    ;; Check if equals 2'',
     ''    (if (i32.eq (local.get $n) (i32.const 2))'',
     ''      (then (return (i32.const 1)))'',
     ''    )'',
     ''    '',
     ''    ;; Check if even'',
     ''    (if (i32.eq (i32.rem_s (local.get $n) (i32.const 2)) (i32.const 0))'',
     ''      (then (return (i32.const 0)))'',
     ''    )'',
     ''    '',
     ''    ;; Loop from 3 to sqrt(n)'',
     ''    (local.set $i (i32.const 3))'',
     ''    (block $exit'',
     ''      (loop $continue'',
     ''        ;; If i*i > n, exit loop'',
     ''        (br_if $exit (i32.gt_s (i32.mul (local.get $i) (local.get $i)) (local.get $n)))'',
     ''        '',
     ''        ;; If n % i == 0, not prime'',
     ''        (if (i32.eq (i32.rem_s (local.get $n) (local.get $i)) (i32.const 0))'',
     ''          (then (return (i32.const 0)))'',
     ''        )'',
     ''        '',
     ''        ;; i += 2'',
     ''        (local.set $i (i32.add (local.get $i) (i32.const 2)))'',
     ''        (br $continue)'',
     ''      )'',
     ''    )'',
     ''    '',
     ''    ;; Is prime'',
     ''    (i32.const 1)'',
     ''  )'',
     '')'']\<close>

definition collatz_wat :: "int \<Rightarrow> string" where
  \<open>collatz_wat v = join_lines
    [''(module'',
     ''  ;; Collatz sequence steps for '' @ str_int v @ '' - REAL ALGORITHM'',
     ''  (func (export "main") (param $dummy i32) (result i32)'',
     ''    (local $n i32)'',
     ''    (local $steps i32)'',
     ''    '',
     ''    ;; Initialize'',
     ''    (local.set $n (i32.const '' @ str_int v @ ''))'',
     ''    (local.set $steps (i32.const 0))'',
     ''    '',
     ''    ;; Loop until n = 1'',
     ''    (block $exit'',
     ''      (loop $continue'',
     ''        ;; Exit if n = 1'',
     ''        (br_if $exit (i32.eq (local.get $n) (i32.const 1)))'',
     ''        '',
     ''        ;; Exit if steps > 1000 (safety)'',
     ''        (br_if $exit (i32.gt_s (local.get $steps) (i32.const 1000)))'',
     ''        '',
     ''        ;; If even: n = n / 2'',
     ''        ;; If odd: n = 3n + 1'',
     ''        (if (i32.eq (i32.rem_s (local.get $n) (i32.const 2)) (i32.const 0))'',
     ''          (then'',
     ''            ;; Even: n = n / 2'',
     ''            (local.set $n (i32.div_s (local.get $n) (i32.const 2)))'',
     ''          )'',
     ''          (else'',
     ''            ;; Odd: n = 3n + 1'',
     ''            (local.set $n '',
     ''              (i32.add '',
     ''                (i32.mul (local.get $n) (i32.const 3))'',
     ''                (i32.const 1)'',
     ''              )'',
     ''            )'',
     ''          )'',
     ''        )'',
     ''        '',
     ''        ;; Increment steps'',
     ''        (local.set $steps (i32.add (local.get $steps) (i32.const 1)))'',
     ''        '',
     ''        (br $continue)'',
     ''      )'',
     ''    )'',
     ''    '',
     ''    (local.get $steps)'',
     ''  )'',
     '')'']\<close>

definition digital_root_wat :: "int \<Rightarrow> string" where
  \<open>digital_root_wat v = join_lines
    [''(module'',
     ''  ;; Digital root calculator for '' @ str_int v @ '' - REAL ALGORITHM'',
     ''  (func (export "main") (param $dummy i32) (result i32)'',
     ''    (local $n i32)'',
     ''    (local $sum i32)'',
     ''    (local $digit i32)'',
     ''    '',
     ''    ;; Initialize'',
     ''    (local.set $n (i32.const '' @ str_int v @ ''))'',
     ''    '',
     ''    ;; Loop until single digit'',
     ''    (block $outer_exit'',
     ''      (loop $outer_continue'',
     ''        ;; Exit if n < 10 (single digit)'',
     ''        (br_if $outer_exit (i32.lt_s (local.get $n) (i32.const 10)))'',
     ''        '',
     ''        ;; Calculate digit sum'',
     ''        (local.set $sum (i32.const 0))'',
     ''        (block $inner_exit'',
     ''          (loop $inner_continue'',
     ''            ;; Exit if n = 0'',
     ''            (br_if $inner_exit (i32.eq (local.get $n) (i32.const 0)))'',
     ''            '',
     ''            ;; Get last digit'',
     ''            (local.set $digit (i32.rem_s (local.get $n) (i32.const 10)))'',
     ''            ;; Add to sum'',
     ''            (local.set $sum (i32.add (local.get $sum) (local.get $digit)))'',
     ''            ;; Remove last digit'',
     ''            (local.set $n (i32.div_s (local.get $n) (i32.const 10)))'',
     ''            '',
     ''            (br $inner_continue)'',
     ''          )'',
     ''        )'',
     ''        '',
     ''        ;; Set n to sum for next iteration'',
     ''        (local.set $n (local.get $sum))'',
     ''        '',
     ''        (br $outer_continue)'',
     ''      )'',
     ''    )'',
     ''    '',
     ''    (local.get $n)'',
     ''  )'',
     '')'']\<close>

definition fibonacci_wat :: "int \<Rightarrow> string" where
  \<open>fibonacci_wat v = join_lines
    [''(module'',
     ''  ;; Fibonacci calculator for n='' @ str_int v @ '' - ITERATIVE'',
     ''  (func (export "main") (param $dummy i32) (result i32)'',
     ''    (local $n i32)'',
     ''    (local $a i32)'',
     ''    (local $b i32)'',
     ''    (local $temp i32)'',
     ''    (local $i i32)'',
     ''    '',
     ''    (local.set $n (i32.const '' @ str_int v @ ''))'',
     ''    '',
     ''    ;; Base cases'',
     ''    (if (i32.le_s (local.get $n) (i32.const 1))'',
     ''      (then (return (local.get $n)))'',
     ''    )'',
     ''    '',
     ''    ;; Initialize'',
     ''    (local.set $a (i32.const 0))'',
     ''    (local.set $b (i32.const 1))'',
     ''    (local.set $i (i32.const 2))'',
     ''    '',
     ''    ;; Loop'',
     ''    (block $exit'',
     ''      (loop $continue'',
     ''        ;; temp = a + b'',
     ''        (local.set $temp (i32.add (local.get $a) (local.get $b)))'',
     ''        ;; a = b'',
     ''        (local.set $a (local.get $b))'',
     ''        ;; b = temp'',
     ''        (local.set $b (local.get $temp))'',
     ''        ;; i++'',
     ''        (local.set $i (i32.add (local.get $i) (i32.const 1)))'',
     ''        ;; Continue if i <= n'',
     ''        (br_if $continue (i32.le_s (local.get $i) (local.get $n)))'',
     ''      )'',
     ''    )'',
     ''    '',
     ''    (local.get $b)'',
     ''  )'',
     '')'']\<close>

definition factorial_wat :: "int \<Rightarrow> string" where
  \<open>factorial_wat v = join_lines
    [''(module'',
     ''  ;; Factorial calculator for n='' @ str_int v,
     ''  (func (export "main") (param $dummy i32) (result i32)'',
     ''    (local $n i32)'',
     ''    (local $result i32)'',
     ''    (local $i i32)'',
     ''    '',
     ''    (local.set $n (i32.const '' @ str_int v @ ''))'',
     ''    (local.set $result (i32.const 1))'',
     ''    (local.set $i (i32.const 1))'',
     ''    '',
     ''    ;; Handle 0! = 1'',
     ''    (if (i32.eq (local.get $n) (i32.const 0))'',
     ''      (then (return (i32.const 1)))'',
     ''    )'',
     ''    '',
     ''    ;; Loop from 1 to n'',
     ''    (block $exit'',
     ''      (loop $continue'',
     ''        ;; result *= i'',
     ''        (local.set $result (i32.mul (local.get $result) (local.get $i)))'',
     ''        ;; i++'',
     ''        (local.set $i (i32.add (local.get $i) (i32.const 1)))'',
     ''        ;; Continue if i <= n'',
     ''        (br_if $continue (i32.le_s (local.get $i) (local.get $n)))'',
     ''      )'',
     ''    )'',
     ''    '',
     ''    (local.get $result)'',
     ''  )'',
     '')'']\<close>

definition gcd_wat :: "int \<Rightarrow> int \<Rightarrow> string" where
  \<open>gcd_wat a b = join_lines
    [''(module'',
     ''  ;; GCD calculator for '' @ str_int a @ '' and '' @ str_int b @ '' - Euclidean algorithm'',
     ''  (func (export "main") (param $dummy i32) (result i32)'',
     ''    (local $a i32)'',
     ''    (local $b i32)'',
     ''    (local $temp i32)'',
     ''    '',
     ''    (local.set $a (i32.const '' @ str_int a @ ''))'',
     ''    (local.set $b (i32.const '' @ str_int b @ ''))'',
     ''    '',
     ''    ;; Euclidean algorithm'',
     ''    (block $exit'',
     ''      (loop $continue'',
     ''        ;; Exit if b = 0'',
     ''        (br_if $exit (i32.eq (local.get $b) (i32.const 0)))'',
     ''        '',
     ''        ;; temp = a % b'',
     ''        (local.set $temp (i32.rem_s (local.get $a) (local.get $b)))'',
     ''        ;; a = b'',
     ''        (local.set $a (local.get $b))'',
     ''        ;; b = temp'',
     ''        (local.set $b (local.get $temp))'',
     ''        '',
     ''        (br $continue)'',
     ''      )'',
     ''    )'',
     ''    '',
     ''    (local.get $a)'',
     ''  )'',
     '')'']\<close>

definition default_wat :: "string" where
  \<open>default_wat = join_lines
    [''(module'',
     ''  ;; Default computation'',
     ''  (func (export "main") (param $dummy i32) (result i32)'',
     ''    i32.const 42'',
     ''  )'',
     '')'']\<close>

fun render :: "fingerprint \<Rightarrow> string" where
  "render (PrimalityCheck v) = prime_wat v"
| "render (CollatzSteps v) = collatz_wat v"
| "render (DigitalRoot v) = digital_root_wat v"
| "render (Fibonacci v) = fibonacci_wat v"
| "render (Factorial v) = factorial_wat v"
| "render (EuclidGCD a b) = gcd_wat a b"
| "render Unrecognized = default_wat"

definition generate_wat_from_c_analysis :: "string \<Rightarrow> exn + string" where
  "generate_wat_from_c_analysis code = map_sum id render (match_fingerprint code)"

section \<open>What the generated modules compute\<close>

text \<open>
  The locals of a module are \<open>i32\<close> values: 32-bit words, with wrapping \<open>i32.add\<close>
  and \<open>i32.mul\<close>, and with the signed reading for \<open>i32.div_s\<close>, \<open>i32.rem_s\<close> and
  \<open>i32.gt_s\<close>. Division and remainder truncate towards zero.
\<close>

type_synonym i32 = "32 word"

definition i32_div_s :: "i32 \<Rightarrow> i32 \<Rightarrow> i32" where
  "i32_div_s a b = word_of_int (sint a sdiv sint b)"

definition i32_rem_s :: "i32 \<Rightarrow> i32 \<Rightarrow> i32" where
  "i32_rem_s a b = word_of_int (sint a smod sint b)"

definition i32_gt_s :: "i32 \<Rightarrow> i32 \<Rightarrow> bool" where
  "i32_gt_s a b = (sint b < sint a)"

definition collatz_next :: "i32 \<Rightarrow> i32" where
  \<comment> \<open>the \<open>if\<close> of the loop body: halve an even \<open>$n\<close>, else \<open>3n + 1\<close>\<close>
  "collatz_next n = (if i32_rem_s n 2 = 0 then i32_div_s n 2 else n * 3 + 1)"

function collatz_loop :: "i32 \<Rightarrow> i32 \<Rightarrow> i32" where
  \<comment> \<open>\<open>(block $exit (loop $continue ...))\<close> of the Collatz module, on \<open>$n\<close> and \<open>$steps\<close>:
      leave when \<open>$n\<close> is 1, leave when \<open>$steps\<close> is above 1000, else step and count\<close>
  "collatz_loop n steps =
     (if n = 1 then steps
      else if i32_gt_s steps 1000 then steps
      else collatz_loop (collatz_next n) (steps + 1))"
  by pat_completeness auto

termination collatz_loop
proof (relation "measure (\<lambda>(n, steps). nat (1001 - sint steps))")
  show "wf (measure (\<lambda>(n, steps). nat (1001 - sint steps)))" by simp
next
  fix n steps :: i32
  assume "n \<noteq> 1" and c: "\<not> i32_gt_s steps 1000"
  have le: "sint steps \<le> 1000" using c by (simp add: i32_gt_s_def)
  have ge: "- (2 ^ 31) \<le> sint steps" using sint_ge [of steps] by simp
  have "sint (steps + 1) = signed_take_bit 31 (sint steps + 1)"
    by (simp add: sint_word_add)
  also have "\<dots> = sint steps + 1"
    using le ge by (simp add: signed_take_bit_int_eq_self_iff)
  finally have "sint (steps + 1) = sint steps + 1" .
  then show "((collatz_next n, steps + 1), n, steps)
               \<in> measure (\<lambda>(n, steps). nat (1001 - sint steps))"
    using le by simp
qed

declare collatz_loop.simps [simp del]

definition collatz_main :: "i32 \<Rightarrow> i32 \<Rightarrow> i32" where
  \<comment> \<open>the exported function of the Collatz module whose constant is \<open>v\<close>: \<open>$n\<close> starts
      at \<open>v\<close>, \<open>$steps\<close> at 0, and \<open>$steps\<close> is the result\<close>
  "collatz_main v dummy = collatz_loop v 0"

definition default_main :: "i32 \<Rightarrow> i32" where
  \<comment> \<open>the exported function of the default module: its body is \<open>i32.const 42\<close>\<close>
  "default_main dummy = 42"

section \<open>The artifact orchestrator\<close>

text \<open>
  \<open>compile_to_wasm\<close> works on the file system and draws a UUID. The file system is a
  state that every operation takes and returns; what the run cannot decide by itself
  (the home directory, the name of the temporary directory, the UUID, and which
  operations fail with which message) comes with the environment; \<open>home\<close> is the home
  directory as the variable \<open>HOME\<close> gives it. An operation that fails raises and leaves
  the file system as it was. The diagnostic \<open>print\<close> calls are not modelled.
\<close>

datatype io_op = MkTemp | OpenWrite string | MakeDirs string | Cleanup string

record world =
  files :: "string \<rightharpoonup> string"
  dirs :: "string set"

record env =
  home :: string
  tmp_name :: string
  uuid4 :: "128 word"
  fault :: "io_op \<Rightarrow> string option"

type_synonym 'a io = "world \<Rightarrow> (exn + 'a) \<times> world"

definition io_return :: "'a \<Rightarrow> 'a io" where
  "io_return x w = (Inr x, w)"

definition io_bind :: "'a io \<Rightarrow> ('a \<Rightarrow> 'b io) \<Rightarrow> 'b io" where
  \<comment> \<open>one statement after another: an exception skips the rest\<close>
  "io_bind m f w = (case m w of (Inl x, w') \<Rightarrow> (Inl x, w') | (Inr r, w') \<Rightarrow> f r w')"

definition io_finally :: "'a io \<Rightarrow> unit io \<Rightarrow> 'a io" where
  \<comment> \<open>leaving a \<open>with\<close> block: the exit code runs on every path, and an exception of
      the exit code is the one that goes on\<close>
  "io_finally m exit w =
     (case m w of
        (r, w') \<Rightarrow> (case exit w' of (Inl x, w'') \<Rightarrow> (Inl x, w'') | (Inr _, w'') \<Rightarrow> (r, w'')))"

definition io_catch :: "'a io \<Rightarrow> (exn \<Rightarrow> 'a io) \<Rightarrow> 'a io" where
  \<comment> \<open>\<open>try: ... except Exception as e: ...\<close>\<close>
  "io_catch m h w = (case m w of (Inl x, w') \<Rightarrow> h x w' | (Inr r, w') \<Rightarrow> (Inr r, w'))"

definition io_lift :: "exn + 'a \<Rightarrow> 'a io" where
  \<comment> \<open>a call that can raise and does not touch the file system\<close>
  "io_lift r w = (r, w)"

definition io_step :: "env \<Rightarrow> io_op \<Rightarrow> (world \<Rightarrow> world) \<Rightarrow> unit io" where
  \<comment> \<open>one operation on the file system: it raises when the environment says so\<close>
  "io_step e op effect w =
     (case fault e op of Some msg \<Rightarrow> (Inl (OSError msg), w) | None \<Rightarrow> (Inr (), effect w))"

definition mk_temp :: "env \<Rightarrow> string io" where
  \<comment> \<open>entering \<open>tempfile.TemporaryDirectory()\<close>\<close>
  "mk_temp e = io_bind (io_step e MkTemp (\<lambda>w. w\<lparr>dirs := insert (tmp_name e) (dirs w)\<rparr>))
                 (\<lambda>_. io_return (tmp_name e))"

definition write_file :: "env \<Rightarrow> string \<Rightarrow> string \<Rightarrow> unit io" where
  \<comment> \<open>\<open>with open(path, 'w') as f: f.write(content)\<close>\<close>
  "write_file e path content =
     io_step e (OpenWrite path) (\<lambda>w. w\<lparr>files := (files w)(path \<mapsto> content)\<rparr>)"

definition makedirs :: "env \<Rightarrow> string \<Rightarrow> unit io" where
  \<comment> \<open>\<open>os.makedirs(path, exist_ok=True)\<close>\<close>
  "makedirs e path = io_step e (MakeDirs path) (\<lambda>w. w\<lparr>dirs := insert path (dirs w)\<rparr>)"

definition cleanup :: "env \<Rightarrow> string \<Rightarrow> unit io" where
  \<comment> \<open>leaving the temporary directory: it goes, with the files in it\<close>
  "cleanup e tmpdir =
     io_step e (Cleanup tmpdir)
       (\<lambda>w. w\<lparr>files := (\<lambda>p. if starts_with (tmpdir @ ''/'') p then None else files w p),
               dirs := dirs w - {tmpdir}\<rparr>)"

definition path_join :: "string \<Rightarrow> string \<Rightarrow> string" where
  \<comment> \<open>\<open>os.path.join(a, b)\<close>: an absolute \<open>b\<close> replaces \<open>a\<close>\<close>
  "path_join a b =
     (if starts_with ''/'' b then b
      else if a = [] \<or> last a = CHR ''/'' then a @ b
      else a @ ''/'' @ b)"

definition hex32 :: "128 word \<Rightarrow> string" where
  \<comment> \<open>the 32 hexadecimal digits of a UUID, the highest first\<close>
  "hex32 u = map (\<lambda>i. ''0123456789abcdef'' ! ((unat u div 16 ^ i) mod 16)) (rev [0..<32])"

definition str_uuid :: "128 word \<Rightarrow> string" where
  \<comment> \<open>\<open>str(u)\<close>: five groups of 8, 4, 4, 4 and 12 digits\<close>
  "str_uuid u =
     (let h = hex32 u
      in take 8 h @ ''-'' @ take 4 (drop 8 h) @ ''-'' @ take 4 (drop 12 h) @ ''-''
           @ take 4 (drop 16 h) @ ''-'' @ drop 20 h)"

definition utf8_length :: "string \<Rightarrow> nat" where
  \<comment> \<open>\<open>len(s.encode('utf-8'))\<close>: two bytes for a code point from 128 on\<close>
  "utf8_length s = sum_list (map (\<lambda>c. if (of_char c :: nat) < 128 then 1 else 2) s)"

text \<open>
  The dictionary that \<open>compile_to_wasm\<close> returns and the \<open>CompileResponse\<close> of the
  endpoint have the same fields; a key that the dictionary does not have is \<open>None\<close>.
\<close>

record compile_result =
  success :: bool
  wat_content :: "string option"
  wasm_file :: "string option"
  wasm_size :: "nat option"
  error :: "string option"

definition base_name :: "string \<Rightarrow> string" where
  \<comment> \<open>\<open>filename.replace('.c', '')\<close>\<close>
  "base_name filename = replace ''.c'' [] filename"

definition unique_id :: "env \<Rightarrow> string" where
  \<comment> \<open>\<open>str(uuid.uuid4())[:8]\<close>\<close>
  "unique_id e = take 8 (str_uuid (uuid4 e))"

definition final_wat_name :: "string \<Rightarrow> env \<Rightarrow> string" where
  "final_wat_name filename e = base_name filename @ ''_'' @ unique_id e @ ''.wat''"

definition rstrip_slash :: "string \<Rightarrow> string" where
  \<comment> \<open>\<open>s.rstrip('/')\<close>\<close>
  "rstrip_slash s = rev (dropWhile (\<lambda>c. c = CHR ''/'') (rev s))"

definition wasm_dir :: "env \<Rightarrow> string" where
  \<comment> \<open>\<open>os.path.expanduser('~/agentkit/zkengine/example_wasms')\<close>: the home directory
      without its trailing slashes, then the rest of the path, which is not empty\<close>
  "wasm_dir e = rstrip_slash (home e) @ ''/agentkit/zkengine/example_wasms''"

definition failure :: "exn \<Rightarrow> compile_result" where
  \<comment> \<open>what both \<open>except\<close> blocks return\<close>
  "failure x = \<lparr>success = False, wat_content = None, wasm_file = None, wasm_size = None,
                error = Some (str_exn x)\<rparr>"

definition compile_body :: "string \<Rightarrow> string \<Rightarrow> env \<Rightarrow> compile_result io" where
  \<comment> \<open>the body of the \<open>try\<close>\<close>
  "compile_body code filename e =
     io_bind (io_lift (generate_wat_from_c_analysis code)) (\<lambda>wat.
      io_bind (mk_temp e) (\<lambda>tmpdir.
        io_finally
          (let wat_file = path_join tmpdir (base_name filename @ ''_'' @ unique_id e @ ''.wat'') in
           io_bind (write_file e wat_file wat) (\<lambda>_.
           io_bind (makedirs e (wasm_dir e)) (\<lambda>_.
           (let final_wat_path = path_join (wasm_dir e) (final_wat_name filename e) in
            io_bind (write_file e final_wat_path wat) (\<lambda>_.
            io_return \<lparr>success = True, wat_content = Some wat,
                       wasm_file = Some (final_wat_name filename e),
                       wasm_size = Some (utf8_length wat), error = None\<rparr>)))))
          (cleanup e tmpdir)))"

definition compile_to_wasm :: "string \<Rightarrow> string \<Rightarrow> env \<Rightarrow> compile_result io" where
  "compile_to_wasm code filename e =
     io_catch (compile_body code filename e) (\<lambda>x. io_return (failure x))"

record compile_request =
  req_code :: string
  req_filename :: string

definition respond :: "compile_result io \<Rightarrow> compile_result io" where
  \<comment> \<open>the \<open>try\<close> of the endpoint around the call that it awaits: it copies a successful
      result, reports the \<open>error\<close> of a failed one, or \<open>Unknown compilation error\<close> when
      the key is missing, and turns an exception of the call into a failure\<close>
  "respond call =
     io_catch
       (io_bind call (\<lambda>result.
          io_return
            (if success result
             then \<lparr>success = True, wat_content = wat_content result,
                   wasm_file = wasm_file result, wasm_size = wasm_size result, error = None\<rparr>
             else \<lparr>success = False, wat_content = None, wasm_file = None, wasm_size = None,
                   error = Some (case error result of
                                   Some msg \<Rightarrow> msg
                                 | None \<Rightarrow> ''Unknown compilation error'')\<rparr>)))
       (\<lambda>x. io_return (failure x))"

definition compile_transformed :: "compile_request \<Rightarrow> env \<Rightarrow> compile_result io" where
  "compile_transformed request e =
     respond (compile_to_wasm (req_code request) (req_filename request) e)"

section \<open>Names and fixtures for the properties\<close>

definition performed_ops :: "string \<Rightarrow> env \<Rightarrow> io_op list" where
  \<comment> \<open>the file-system operations of one run of \<open>compile_to_wasm\<close>, when none of them fails\<close>
  "performed_ops fname e =
     [MkTemp,
      OpenWrite (path_join (tmp_name e) (final_wat_name fname e)),
      MakeDirs (wasm_dir e),
      OpenWrite (path_join (wasm_dir e) (final_wat_name fname e)),
      Cleanup (tmp_name e)]"

definition artifact :: "string \<Rightarrow> string \<Rightarrow> env \<Rightarrow> compile_result" where
  \<comment> \<open>the dictionary of the successful \<open>return\<close>, for the module text \<open>wat\<close>\<close>
  "artifact wat fname e =
     \<lparr>success = True, wat_content = Some wat, wasm_file = Some (final_wat_name fname e),
      wasm_size = Some (utf8_length wat), error = None\<rparr>"

definition env0 :: env where
  \<comment> \<open>an environment in which nothing fails\<close>
  "env0 = \<lparr>home = ''/home/zk'', tmp_name = ''/tmp/tmpk3v9'',
           uuid4 = 0x12345678aaaa4aaa8aaaaaaaaaaaaaaa, fault = (\<lambda>_. None)\<rparr>"

definition env1 :: env where
  \<comment> \<open>another one: a different UUID with the same first eight digits\<close>
  "env1 = \<lparr>home = ''/home/zk'', tmp_name = ''/tmp/tmpq7x2'',
           uuid4 = 0x12345678bbbb4bbb9bbbbbbbbbbbbbbb, fault = (\<lambda>_. None)\<rparr>"

definition env_denied :: env where
  \<comment> \<open>an environment in which the shared directory cannot be created\<close>
  "env_denied = env0\<lparr>fault := (\<lambda>op. case op of MakeDirs _ \<Rightarrow> Some ''Permission denied''
                                              | _ \<Rightarrow> None)\<rparr>"

definition world0 :: world where
  "world0 = \<lparr>files = Map.empty, dirs = {}\<rparr>"

datatype family =
    F_PrimalityCheck
  | F_CollatzSteps
  | F_DigitalRoot
  | F_Fibonacci
  | F_Factorial
  | F_GCD
  | F_Unrecognized

fun family_of :: "fingerprint \<Rightarrow> family" where
  "family_of (PrimalityCheck v) = F_PrimalityCheck"
| "family_of (CollatzSteps v) = F_CollatzSteps"
| "family_of (DigitalRoot v) = F_DigitalRoot"
| "family_of (Fibonacci v) = F_Fibonacci"
| "family_of (Factorial v) = F_Factorial"
| "family_of (EuclidGCD a b) = F_GCD"
| "family_of Unrecognized = F_Unrecognized"

fun cue :: "family \<Rightarrow> string \<Rightarrow> bool" where
  \<comment> \<open>the condition of each branch of the chain, as the source writes it\<close>
  "cue F_PrimalityCheck t = contains ''is_prime'' t"
| "cue F_CollatzSteps t = contains ''collatz'' (lower t)"
| "cue F_DigitalRoot t = (contains ''digital_root'' t \<or> contains ''digit_sum'' t)"
| "cue F_Fibonacci t = contains ''fibonacci'' t"
| "cue F_Factorial t = contains ''factorial'' t"
| "cue F_GCD t = (contains ''gcd'' t \<or> contains ''greatest_common'' t)"
| "cue F_Unrecognized t = True"

definition priority :: "family list" where
  \<comment> \<open>the order of the branches\<close>
  "priority = [F_PrimalityCheck, F_CollatzSteps, F_DigitalRoot, F_Fibonacci, F_Factorial, F_GCD]"

definition assign_probe :: "string \<Rightarrow> string \<Rightarrow> (exn + int) option" where
  \<comment> \<open>the assignment probe for one name: \<open>int\<close> of the digits of the first match\<close>
  "assign_probe var t = map_option py_int (re_search (match_assign var) t)"

definition call_probe :: "string \<Rightarrow> string \<Rightarrow> (exn + int) option" where
  \<comment> \<open>the call probe\<close>
  "call_probe f t = map_option py_int (re_search (match_call f) t)"

fun first_some :: "'a option list \<Rightarrow> 'a option" where
  "first_some [] = None"
| "first_some (None # xs) = first_some xs"
| "first_some (Some x # xs) = Some x"

definition probes_of_source ::
  "string \<Rightarrow> string list \<Rightarrow> string \<Rightarrow> (exn + int) option list" where
  \<comment> \<open>the order in which the loop of \<open>extract_value\<close> runs the probes: for each name, its
      assignment probe and then the call probe\<close>
  "probes_of_source t names f = concat (map (\<lambda>v. [assign_probe v t, call_probe f t]) names)"

definition probes_of_spec ::
  "string \<Rightarrow> string list \<Rightarrow> string \<Rightarrow> (exn + int) option list" where
  \<comment> \<open>the order that the specification describes: every assignment probe, then the call
      probe\<close>
  "probes_of_spec t names f = map (\<lambda>v. assign_probe v t) names @ [call_probe f t]"

definition family_branch :: "family \<Rightarrow> string \<Rightarrow> exn + fingerprint" where
  \<comment> \<open>what the branch of one family does with the text, the condition of the branch
      apart: the extraction of the family, with its names and its default\<close>
  "family_branch f t =
     (case f of
        F_PrimalityCheck \<Rightarrow>
          map_sum id PrimalityCheck
            (extract_value t [''number_to_check'', ''n'', ''num''] (Some ''is_prime'') 17)
      | F_CollatzSteps \<Rightarrow>
          map_sum id CollatzSteps
            (extract_value t [''starting_number'', ''start'', ''n''] (Some ''collatz'') 27)
      | F_DigitalRoot \<Rightarrow>
          map_sum id DigitalRoot
            (extract_value t [''input_number'', ''num'', ''n''] (Some ''digital_root'') 12345)
      | F_Fibonacci \<Rightarrow>
          map_sum id Fibonacci
            (extract_value t [''n'', ''num'', ''value''] (Some ''fibonacci'') 10)
      | F_Factorial \<Rightarrow>
          map_sum id Factorial
            (extract_value t [''n'', ''num'', ''value''] (Some ''factorial'') 5)
      | F_GCD \<Rightarrow>
          (case gcd_operand [''a'', ''x'', ''first''] 48 t of
             Inl x \<Rightarrow> Inl x
           | Inr a \<Rightarrow>
               (case gcd_operand [''b'', ''y'', ''second''] 18 t of
                  Inl x \<Rightarrow> Inl x
                | Inr b \<Rightarrow> Inr (EuclidGCD a b)))
      | F_Unrecognized \<Rightarrow> Inr Unrecognized)"

definition long_literal :: string where
  \<comment> \<open>a decimal literal of 4301 digits\<close>
  "long_literal = replicate 4301 (CHR ''7'')"

definition long_source :: string where
  \<comment> \<open>a text that assigns this literal to the first name of the primality family\<close>
  "long_source = ''number_to_check = '' @ long_literal @ ''; return is_prime(number_to_check);''"

section \<open>Lemmas\<close>

subsection \<open>Text primitives\<close>

lemma starts_with_append [simp]: "starts_with p (p @ r)"
  by (induction p) auto

lemma starts_with_iff: "starts_with p s \<longleftrightarrow> (\<exists>r. s = p @ r)"
proof (induction p s rule: starts_with.induct)
  case (1 s)
  then show ?case by simp
next
  case (2 p ps)
  then show ?case by simp
next
  case (3 p ps c cs)
  then show ?case by auto
qed

lemma contains_iff: "contains sub s \<longleftrightarrow> (\<exists>p q. s = p @ sub @ q)"
proof (induction s)
  case Nil
  then show ?case by auto
next
  case (Cons c cs)
  show ?case
  proof
    assume "contains sub (c # cs)"
    then consider "starts_with sub (c # cs)" | "contains sub cs" by auto
    then show "\<exists>p q. c # cs = p @ sub @ q"
    proof cases
      case 1
      then obtain r where "c # cs = sub @ r" by (auto simp: starts_with_iff)
      then have "c # cs = [] @ sub @ r" by simp
      then show ?thesis by blast
    next
      case 2
      then obtain p q where "cs = p @ sub @ q" using Cons by auto
      then have "c # cs = (c # p) @ sub @ q" by simp
      then show ?thesis by blast
    qed
  next
    assume "\<exists>p q. c # cs = p @ sub @ q"
    then obtain p q where e: "c # cs = p @ sub @ q" by blast
    show "contains sub (c # cs)"
    proof (cases p)
      case Nil
      then have "starts_with sub (c # cs)" using e by (auto simp: starts_with_iff)
      then show ?thesis by simp
    next
      case (Cons d ds)
      then have "cs = ds @ sub @ q" using e by simp
      then have "contains sub cs" using Cons.IH by blast
      then show ?thesis by simp
    qed
  qed
qed

lemma replace_match:
  assumes "old \<noteq> []"
  shows "replace old new (old @ r) = new @ replace old new r"
proof -
  obtain c cs where s: "old @ r = c # cs" using assms by (cases old) auto
  have sw: "starts_with old (c # cs)" unfolding s [symmetric] by simp
  have dr: "drop (length old) (c # cs) = r" unfolding s [symmetric] by simp
  have "replace old new (c # cs) = new @ replace old new (drop (length old) (c # cs))"
    using assms sw by (simp only: replace.simps if_True if_False)
  then show ?thesis unfolding dr unfolding s [symmetric] .
qed

lemma replace_nomatch:
  assumes "old \<noteq> []" and "\<not> starts_with old (c # cs)"
  shows "replace old new (c # cs) = c # replace old new cs"
  using assms by simp

lemma replace_dot_c_append:
  "replace ''.c'' [] (a @ ''.c'' @ b) = replace ''.c'' [] a @ replace ''.c'' [] b"
proof (induction a rule: length_induct)
  case (1 a)
  show ?case
  proof (cases a)
    case Nil
    have "replace ''.c'' [] (''.c'' @ b) = [] @ replace ''.c'' [] b"
      by (rule replace_match) simp
    then show ?thesis using Nil by simp
  next
    case (Cons c cs)
    show ?thesis
    proof (cases "starts_with ''.c'' a")
      case True
      then obtain r where a: "a = ''.c'' @ r"
        by (auto simp: starts_with_iff)
      then have "length r < length a" by simp
      with 1 have ih:
        "replace ''.c'' [] (r @ ''.c'' @ b) = replace ''.c'' [] r @ replace ''.c'' [] b"
        by blast
      have l: "replace ''.c'' [] (''.c'' @ r) = [] @ replace ''.c'' [] r"
        by (rule replace_match) simp
      have "replace ''.c'' [] (''.c'' @ (r @ ''.c'' @ b))
              = [] @ replace ''.c'' [] (r @ ''.c'' @ b)"
        by (rule replace_match) simp
      then show ?thesis using ih l unfolding a by simp
    next
      case False
      have "length cs < length a" using Cons by simp
      with 1 have ih:
        "replace ''.c'' [] (cs @ ''.c'' @ b) = replace ''.c'' [] cs @ replace ''.c'' [] b"
        by blast
      have n: "\<not> starts_with ''.c'' (c # (cs @ ''.c'' @ b))"
        using False Cons by (cases cs) auto
      have "replace ''.c'' [] (c # (cs @ ''.c'' @ b)) = c # replace ''.c'' [] (cs @ ''.c'' @ b)"
        using n by (intro replace_nomatch) simp_all
      moreover have "replace ''.c'' [] (c # cs) = c # replace ''.c'' [] cs"
        using False Cons by (intro replace_nomatch) simp_all
      ultimately show ?thesis using ih unfolding Cons by simp
    qed
  qed
qed

subsection \<open>The orchestrator, case by case\<close>

lemmas io_defs = io_return_def io_bind_def io_finally_def io_catch_def io_step_def io_lift_def
  mk_temp_def write_file_def makedirs_def cleanup_def

lemma compile_to_wasm_raised:
  assumes "generate_wat_from_c_analysis src = Inl x"
  shows "compile_to_wasm src fname e w = (Inr (failure x), w)"
  using assms by (simp add: compile_to_wasm_def compile_body_def io_defs)

lemma compile_to_wasm_cases:
  "fst (compile_to_wasm src fname e w) =
     Inr (case generate_wat_from_c_analysis src of
            Inl x \<Rightarrow> failure x
          | Inr wat \<Rightarrow>
             (case fault e MkTemp of
                Some m \<Rightarrow> failure (OSError m)
              | None \<Rightarrow>
                 (case fault e (Cleanup (tmp_name e)) of
                    Some m \<Rightarrow> failure (OSError m)
                  | None \<Rightarrow>
                     (case fault e (OpenWrite (path_join (tmp_name e) (final_wat_name fname e))) of
                        Some m \<Rightarrow> failure (OSError m)
                      | None \<Rightarrow>
                         (case fault e (MakeDirs (wasm_dir e)) of
                            Some m \<Rightarrow> failure (OSError m)
                          | None \<Rightarrow>
                             (case fault e (OpenWrite (path_join (wasm_dir e)
                                                        (final_wat_name fname e))) of
                                Some m \<Rightarrow> failure (OSError m)
                              | None \<Rightarrow> artifact wat fname e))))))"
  by (simp add: compile_to_wasm_def compile_body_def io_defs Let_def final_wat_name_def
      artifact_def split: option.splits sum.splits)

lemma compile_to_wasm_returns: "\<exists>r w'. compile_to_wasm src fname e w = (Inr r, w')"
  using compile_to_wasm_cases [of src fname e w] by (cases "compile_to_wasm src fname e w") auto

lemma compile_to_wasm_ok:
  assumes "generate_wat_from_c_analysis src = Inr wat"
    and "\<forall>op \<in> set (performed_ops fname e). fault e op = None"
  shows "fst (compile_to_wasm src fname e w) = Inr (artifact wat fname e)"
  using assms by (simp add: compile_to_wasm_cases performed_ops_def)

lemma compile_to_wasm_success_iff:
  "fst (compile_to_wasm src fname e w) = Inr r \<Longrightarrow>
     success r \<longleftrightarrow> (\<exists>wat. generate_wat_from_c_analysis src = Inr wat)
                   \<and> (\<forall>op \<in> set (performed_ops fname e). fault e op = None)"
  by (auto simp: compile_to_wasm_cases performed_ops_def failure_def artifact_def
      split: option.splits sum.splits)

lemma compile_to_wasm_success:
  "fst (compile_to_wasm src fname e w) = Inr r \<Longrightarrow> success r \<Longrightarrow>
     \<exists>wat. generate_wat_from_c_analysis src = Inr wat \<and> r = artifact wat fname e"
  by (auto simp: compile_to_wasm_cases failure_def split: option.splits sum.splits)

lemma compile_to_wasm_failure:
  assumes "fst (compile_to_wasm src fname e w) = Inr r" and "\<not> success r"
  shows "wat_content r = None \<and> wasm_file r = None \<and> wasm_size r = None
    \<and> (case generate_wat_from_c_analysis src of
          Inl x \<Rightarrow> error r = Some (str_exn x)
        | Inr wat \<Rightarrow> \<exists>op \<in> set (performed_ops fname e). \<exists>msg.
                       fault e op = Some msg \<and> error r = Some msg)"
  using assms
  by (auto simp: compile_to_wasm_cases performed_ops_def failure_def artifact_def str_exn_def
      split: option.splits sum.splits)

lemma compile_to_wasm_persists:
  assumes "generate_wat_from_c_analysis src = Inr wat"
    and "\<forall>op \<in> set (performed_ops fname e). fault e op = None"
    and "\<not> starts_with (tmp_name e @ ''/'') (path_join (wasm_dir e) (final_wat_name fname e))"
  shows "files (snd (compile_to_wasm src fname e w))
           (path_join (wasm_dir e) (final_wat_name fname e))
         = Some wat"
  using assms
  by (simp add: compile_to_wasm_def compile_body_def io_defs Let_def final_wat_name_def
      performed_ops_def)

lemma compile_to_wasm_files:
  assumes "generate_wat_from_c_analysis src = Inr wat"
    and "\<forall>op \<in> set (performed_ops fname e). fault e op = None"
  shows "files (snd (compile_to_wasm src fname e w))
         = (\<lambda>p. if starts_with (tmp_name e @ ''/'') p then None
                else if p = path_join (wasm_dir e) (final_wat_name fname e) then Some wat
                else if p = path_join (tmp_name e) (final_wat_name fname e) then Some wat
                else files w p)"
  using assms
  by (simp add: compile_to_wasm_def compile_body_def io_defs Let_def final_wat_name_def
      performed_ops_def fun_eq_iff)

lemma respond_raised:
  assumes "call w = (Inl x, w')"
  shows "respond call w = (Inr (failure x), w')"
  using assms by (simp add: respond_def io_catch_def io_bind_def io_return_def)

lemma respond_returned:
  assumes "call w = (Inr r, w')"
  shows "respond call w =
           (Inr (if success r
                 then \<lparr>success = True, wat_content = wat_content r, wasm_file = wasm_file r,
                       wasm_size = wasm_size r, error = None\<rparr>
                 else \<lparr>success = False, wat_content = None, wasm_file = None,
                       wasm_size = None,
                       error = Some (case error r of
                                       Some msg \<Rightarrow> msg
                                     | None \<Rightarrow> ''Unknown compilation error'')\<rparr>), w')"
  using assms by (simp add: respond_def io_catch_def io_bind_def io_return_def)

lemma respond_returns: "\<exists>r w'. respond call w = (Inr r, w')"
proof (cases "call w")
  case (Pair res w')
  then show ?thesis
    by (cases res) (simp_all add: respond_raised respond_returned)
qed

lemma compile_transformed_same:
  "fst (compile_transformed req e w)
     = fst (compile_to_wasm (req_code req) (req_filename req) e w)"
proof -
  obtain r w' where run: "compile_to_wasm (req_code req) (req_filename req) e w = (Inr r, w')"
    using compile_to_wasm_returns by blast
  have "(\<exists>wat. r = artifact wat (req_filename req) e) \<or> (\<exists>x. r = failure x)"
    using compile_to_wasm_cases [of "req_code req" "req_filename req" e w] run
    by (auto split: option.splits sum.splits)
  then show ?thesis
    by (auto simp: compile_transformed_def run artifact_def failure_def
        respond_returned [where call = "compile_to_wasm (req_code req) (req_filename req) e",
          OF run])
qed

lemma env0_no_fault: "fault env0 op = None"
  by (simp add: env0_def)

lemma env1_no_fault: "fault env1 op = None"
  by (simp add: env1_def)

lemma unique_id_env0: "unique_id env0 = ''12345678''"
  by (simp add: unique_id_def env0_def str_uuid_def hex32_def upt_rec)

lemma unique_id_env1: "unique_id env1 = ''12345678''"
  by (simp add: unique_id_def env1_def str_uuid_def hex32_def upt_rec)

lemma unique_id_hex:
  "length (unique_id e) = 8 \<and> set (unique_id e) \<subseteq> set ''0123456789abcdef''"
proof -
  have len: "length (unique_id e) = 8"
    by (simp add: unique_id_def str_uuid_def Let_def hex32_def)
  have "unique_id e = take 8 (hex32 (uuid4 e))"
    by (simp add: unique_id_def str_uuid_def Let_def hex32_def)
  moreover have "set (hex32 (uuid4 e)) \<subseteq> set ''0123456789abcdef''"
  proof
    fix c assume "c \<in> set (hex32 (uuid4 e))"
    then obtain i where "c = ''0123456789abcdef'' ! ((unat (uuid4 e) div 16 ^ i) mod 16)"
      by (auto simp: hex32_def)
    moreover have "(unat (uuid4 e) div 16 ^ i) mod 16 < length ''0123456789abcdef''"
      by simp
    ultimately show "c \<in> set ''0123456789abcdef''" using nth_mem by metis
  qed
  ultimately have "set (unique_id e) \<subseteq> set ''0123456789abcdef''"
    using set_take_subset [of 8 "hex32 (uuid4 e)"] by auto
  with len show ?thesis by simp
qed

lemma artifact_names_by_uuid_prefix:
  assumes "fst (compile_to_wasm src fname e1 w) = Inr r1" and "success r1"
    and "fst (compile_to_wasm src fname e2 w') = Inr r2" and "success r2"
  shows "wat_content r2 = wat_content r1
    \<and> wasm_file r1 = Some (base_name fname @ ''_'' @ unique_id e1 @ ''.wat'')
    \<and> wasm_file r2 = Some (base_name fname @ ''_'' @ unique_id e2 @ ''.wat'')
    \<and> (wasm_file r1 \<noteq> wasm_file r2 \<longleftrightarrow> unique_id e1 \<noteq> unique_id e2)"
proof -
  obtain wat1 where r1: "generate_wat_from_c_analysis src = Inr wat1" "r1 = artifact wat1 fname e1"
    using compile_to_wasm_success [OF assms(1,2)] by blast
  obtain wat2 where r2: "generate_wat_from_c_analysis src = Inr wat2" "r2 = artifact wat2 fname e2"
    using compile_to_wasm_success [OF assms(3,4)] by blast
  show ?thesis
    using r1 r2 by (simp add: artifact_def final_wat_name_def)
qed

lemma wasm_dir_env0: "wasm_dir env0 = ''/home/zk/agentkit/zkengine/example_wasms''"
  by (simp add: wasm_dir_def rstrip_slash_def env0_def)

lemma wasm_dir_env1: "wasm_dir env1 = ''/home/zk/agentkit/zkengine/example_wasms''"
  by (simp add: wasm_dir_def rstrip_slash_def env1_def)

lemma wasm_dir_of_root_home:
  "wasm_dir (e\<lparr>home := ''/''\<rparr>) = ''/agentkit/zkengine/example_wasms''"
  by (simp add: wasm_dir_def rstrip_slash_def)

lemma wasm_dir_drops_trailing_slashes:
  "wasm_dir (e\<lparr>home := ''/home/zk//''\<rparr>) = ''/home/zk/agentkit/zkengine/example_wasms''"
  by (simp add: wasm_dir_def rstrip_slash_def)

subsection \<open>The change list of the normalizer\<close>

lemma add_stdint_keeps: "x \<in> set changes \<Longrightarrow> x \<in> set (snd (add_stdint c changes))"
  by (simp add: add_stdint_def Let_def)

lemma remove_io_keeps: "x \<in> set changes \<Longrightarrow> x \<in> set (snd (remove_io n en c changes))"
  by (simp add: remove_io_def)

lemma fix_main_keeps: "x \<in> set changes \<Longrightarrow> x \<in> set (snd (fix_main c changes))"
  by (simp add: fix_main_def split: option.splits)

lemma convert_malloc_keeps: "x \<in> set changes \<Longrightarrow> x \<in> set (snd (convert_malloc c changes))"
  by (simp add: convert_malloc_def Let_def)

lemma type_conversions_logs:
  "''Converted int/float to int32_t'' \<in> set (snd (type_conversions c changes))"
  by (simp add: type_conversions_def)

lemma conversion_logged:
  "''Converted int/float to int32_t'' \<in> set (snd (transform_for_zkengine s))"
  unfolding transform_for_zkengine_def Let_def case_prod_beta
  by (intro convert_malloc_keeps fix_main_keeps remove_io_keeps type_conversions_logs)

subsection \<open>Probes and cues\<close>

lemmas probe_defs = assign_probe_def call_probe_def match_assign_def match_call_def lit_def
  spaces0_def digits1_def is_space_def is_digit_def py_int_def max_str_digits_def digit_val_def
  truthy_def

lemmas lower_defs = lower_def lower_char_def char_of_def bit_iff_odd

lemma lower_append: "lower (a @ b) = lower a @ lower b"
  by (simp add: lower_def)

lemma extract_value_probes:
  assumes "f \<noteq> []"
  shows "extract_value t names (Some f) d
     = (case first_some (probes_of_source t names f) of Some r \<Rightarrow> r | None \<Rightarrow> Inr d)"
  using assms
  by (induction names)
     (auto simp: probes_of_source_def assign_probe_def call_probe_def truthy_def
       split: option.splits)

subsection \<open>When \<open>int\<close> raises\<close>

text \<open>
  The digits that a probe captures are part of the text, so \<open>int\<close> can raise only on a
  text of more than 4300 characters: on every shorter text the generation returns.
\<close>

lemma py_int_short: "length ds \<le> 4300 \<Longrightarrow> \<exists>v. py_int ds = Inr v"
  by (simp add: py_int_def max_str_digits_def)

lemma py_int_long:
  "4300 < length ds \<Longrightarrow>
     py_int ds = Inl (ValueError
       (''Exceeds the limit (4300 digits) for integer string conversion: value has ''
        @ str_nat (length ds)
        @ '' digits; use sys.set_int_max_str_digits() to increase the limit''))"
  by (simp add: py_int_def max_str_digits_def)

lemma lit_length: "lit p s = Some r \<Longrightarrow> length r \<le> length s"
  by (auto simp: lit_def split: if_splits)

lemma spaces0_length: "length (spaces0 s) \<le> length s"
  by (simp add: spaces0_def length_dropWhile_le)

lemma digits1_length: "digits1 s = Some (ds, r) \<Longrightarrow> length ds \<le> length s"
  by (auto simp: digits1_def length_takeWhile_le split: if_splits)

lemma match_assign_length:
  assumes "match_assign v s = Some (ds, r)"
  shows "length ds \<le> length s"
proof -
  obtain r1 r2 where a: "lit v s = Some r1" and b: "lit ''='' (spaces0 r1) = Some r2"
    and c: "digits1 (spaces0 r2) = Some (ds, r)"
    using assms by (auto simp: match_assign_def split: bind_splits)
  have "length ds \<le> length (spaces0 r2)" using digits1_length [OF c] .
  also have "\<dots> \<le> length r2" by (rule spaces0_length)
  also have "\<dots> \<le> length (spaces0 r1)" using lit_length [OF b] .
  also have "\<dots> \<le> length r1" by (rule spaces0_length)
  also have "\<dots> \<le> length s" using lit_length [OF a] .
  finally show ?thesis .
qed

lemma match_call_length:
  assumes "match_call f s = Some (ds, r)"
  shows "length ds \<le> length s"
proof -
  obtain r1 r2 r3 where a: "lit f s = Some r1" and b: "lit ''('' (spaces0 r1) = Some r2"
    and c: "digits1 (spaces0 r2) = Some (ds, r3)"
    using assms by (auto simp: match_call_def split: bind_splits)
  have "length ds \<le> length (spaces0 r2)" using digits1_length [OF c] .
  also have "\<dots> \<le> length r2" by (rule spaces0_length)
  also have "\<dots> \<le> length (spaces0 r1)" using lit_length [OF b] .
  also have "\<dots> \<le> length r1" by (rule spaces0_length)
  also have "\<dots> \<le> length s" using lit_length [OF a] .
  finally show ?thesis .
qed

lemma match_alt_assign_length:
  "match_alt_assign vs s = Some (ds, r) \<Longrightarrow> length ds \<le> length s"
  by (induction vs) (auto dest: match_assign_length split: option.splits)

lemma re_search_length:
  assumes "\<And>s g r. m s = Some (g, r) \<Longrightarrow> length g \<le> length s"
  shows "re_search m t = Some g \<Longrightarrow> length g \<le> length t"
proof (induction t)
  case Nil
  then show ?case by simp
next
  case (Cons c cs)
  show ?case
  proof (cases "m (c # cs)")
    case None
    then show ?thesis using Cons by simp
  next
    case (Some a)
    then obtain g' r where "m (c # cs) = Some (g', r)" by (cases a) simp
    then show ?thesis using Cons.prems assms [of "c # cs" g' r] by simp
  qed
qed

lemma extract_value_short:
  assumes "length t \<le> 4300"
  shows "\<exists>v. extract_value t names f d = Inr v"
proof (induction names)
  case Nil
  then show ?case by simp
next
  case (Cons v vs)
  have a: "\<exists>x. py_int ds = Inr x" if "re_search (match_assign v) t = Some ds" for ds
  proof -
    have "length ds \<le> length t"
      by (rule re_search_length [where m = "match_assign v"])
         (erule match_assign_length, rule that)
    then show ?thesis using assms by (intro py_int_short) simp
  qed
  have b: "\<exists>x. py_int ds = Inr x" if "re_search (match_call g) t = Some ds" for ds g
  proof -
    have "length ds \<le> length t"
      by (rule re_search_length [where m = "match_call g"])
         (erule match_call_length, rule that)
    then show ?thesis using assms by (intro py_int_short) simp
  qed
  show ?case
    using a b Cons.IH by (auto split: option.splits)
qed

lemma gcd_operand_short:
  assumes "length t \<le> 4300"
  shows "\<exists>v. gcd_operand names d t = Inr v"
proof (cases "re_search (match_alt_assign names) t")
  case None
  then show ?thesis by (simp add: gcd_operand_def)
next
  case (Some ds)
  have "length ds \<le> length t"
    by (rule re_search_length [where m = "match_alt_assign names"])
       (erule match_alt_assign_length, rule Some)
  then show ?thesis
    using Some assms py_int_short [of ds] by (simp add: gcd_operand_def)
qed

lemma match_fingerprint_short:
  assumes "length t \<le> 4300"
  shows "\<exists>fp. match_fingerprint t = Inr fp"
proof -
  have ex: "\<exists>fp. map_sum id C (extract_value t names f d) = Inr fp"
    for C :: "int \<Rightarrow> fingerprint" and names f d
    using extract_value_short [OF assms, of names f d] by auto
  obtain a where a: "gcd_operand [''a'', ''x'', ''first''] 48 t = Inr a"
    using gcd_operand_short [OF assms] by blast
  obtain b where b: "gcd_operand [''b'', ''y'', ''second''] 18 t = Inr b"
    using gcd_operand_short [OF assms] by blast
  show ?thesis
    unfolding match_fingerprint_def using ex a b by (simp del: extract_value.simps)
qed

lemma generate_short:
  assumes "length t \<le> 4300"
  shows "\<exists>wat. generate_wat_from_c_analysis t = Inr wat"
  using match_fingerprint_short [OF assms] by (auto simp: generate_wat_from_c_analysis_def)

lemma raises_only_value_error:
  "extract_value t names f d = Inl x \<Longrightarrow> \<exists>m. x = ValueError m"
  by (induction names) (auto simp: py_int_def split: option.splits if_splits)

lemma assign_at_head:
  assumes "v \<noteq> []" and "ds \<noteq> []" and "\<forall>c \<in> set ds. is_digit c"
  shows "re_search (match_assign v) (v @ '' = '' @ ds @ CHR '';'' # rest) = Some ds"
proof -
  have run: "takeWhile is_digit (ds @ CHR '';'' # rest) = ds"
    using assms(3) by (simp add: takeWhile_append2 is_digit_def)
  have sp: "dropWhile is_space (ds @ CHR '';'' # rest) = ds @ CHR '';'' # rest"
    using assms(2,3) by (cases ds) (auto simp: is_space_def is_digit_def Let_def)
  have m: "match_assign v (v @ '' = '' @ ds @ CHR '';'' # rest)
             = Some (ds, dropWhile is_digit (ds @ CHR '';'' # rest))"
    using assms(2)
    by (simp add: match_assign_def lit_def spaces0_def digits1_def is_space_def sp run)
  obtain c cs where v: "v = c # cs" using assms(1) by (cases v) auto
  show ?thesis
    using m unfolding v by simp
qed

lemma generation_raises_over_cap:
  assumes "\<forall>c \<in> set ds. is_digit c" and "4300 < length ds"
  shows "generate_wat_from_c_analysis
           (''number_to_check = '' @ ds @ ''; return is_prime(number_to_check);'')
         = Inl (ValueError
             (''Exceeds the limit (4300 digits) for integer string conversion: value has ''
              @ str_nat (length ds)
              @ '' digits; use sys.set_int_max_str_digits() to increase the limit''))"
proof -
  let ?t = "''number_to_check = '' @ ds @ ''; return is_prime(number_to_check);''"
  have ne: "ds \<noteq> []" using assms(2) by auto
  have cue: "contains ''is_prime'' ?t"
    unfolding contains_iff
    by (rule exI [of _ "''number_to_check = '' @ ds @ ''; return ''"],
        rule exI [of _ "''(number_to_check);''"]) simp
  have probe: "re_search (match_assign ''number_to_check'') ?t = Some ds"
    using assign_at_head [of "''number_to_check''" ds "'' return is_prime(number_to_check);''",
        OF _ ne assms(1)]
    by simp
  show ?thesis
    using cue probe py_int_long [OF assms(2)]
    by (simp add: generate_wat_from_c_analysis_def match_fingerprint_def)
qed

subsection \<open>The Collatz loop\<close>

lemma sint_succ_below_cutoff:
  fixes steps :: i32
  assumes "\<not> i32_gt_s steps 1000"
  shows "sint (steps + 1) = sint steps + 1"
proof -
  have le: "sint steps \<le> 1000" using assms by (simp add: i32_gt_s_def)
  have ge: "- (2 ^ 31) \<le> sint steps" using sint_ge [of steps] by simp
  have "sint (steps + 1) = signed_take_bit 31 (sint steps + 1)"
    by (simp add: sint_word_add)
  also have "\<dots> = sint steps + 1"
    using le ge by (simp add: signed_take_bit_int_eq_self_iff)
  finally show ?thesis .
qed

lemma collatz_loop_at_one: "collatz_loop 1 s = s"
  by (simp add: collatz_loop.simps)

lemma collatz_loop_cut: "i32_gt_s s 1000 \<Longrightarrow> collatz_loop n s = s"
  by (simp add: collatz_loop.simps)

lemma collatz_loop_step:
  "n \<noteq> 1 \<Longrightarrow> \<not> i32_gt_s s 1000 \<Longrightarrow> collatz_loop n s = collatz_loop (collatz_next n) (s + 1)"
  by (subst collatz_loop.simps) simp

lemma collatz_loop_bounds:
  "sint s \<le> 1001 \<Longrightarrow> sint s \<le> sint (collatz_loop n s) \<and> sint (collatz_loop n s) \<le> 1001"
proof (induction n s rule: collatz_loop.induct)
  case (1 n steps)
  show ?case
  proof (cases "n = 1 \<or> i32_gt_s steps 1000")
    case True
    then show ?thesis using "1.prems" by (auto simp: collatz_loop_at_one collatz_loop_cut)
  next
    case False
    then have n: "n \<noteq> 1" and c: "\<not> i32_gt_s steps 1000" by auto
    have s: "sint (steps + 1) = sint steps + 1" using sint_succ_below_cutoff [OF c] .
    have "sint steps \<le> 1000" using c by (simp add: i32_gt_s_def)
    then have "sint (steps + 1) \<le> 1001" using s by simp
    then have "sint (steps + 1) \<le> sint (collatz_loop (collatz_next n) (steps + 1))
        \<and> sint (collatz_loop (collatz_next n) (steps + 1)) \<le> 1001"
      using "1.IH" n c by simp
    then show ?thesis using s by (simp add: collatz_loop_step [OF n c])
  qed
qed

lemma collatz_loop_reaches_one:
  "(collatz_next ^^ k) n = 1 \<Longrightarrow> \<forall>j<k. (collatz_next ^^ j) n \<noteq> 1 \<Longrightarrow> 0 \<le> sint s
    \<Longrightarrow> sint s + int k \<le> 1001 \<Longrightarrow> collatz_loop n s = s + of_nat k"
proof (induction k arbitrary: n s)
  case 0
  then show ?case by (simp add: collatz_loop_at_one)
next
  case (Suc k)
  have n: "n \<noteq> 1" using Suc.prems(2) by (auto dest: spec [of _ 0])
  have le: "sint s \<le> 1000" using Suc.prems(4) by simp
  then have c: "\<not> i32_gt_s s 1000" by (simp add: i32_gt_s_def)
  have s: "sint (s + 1) = sint s + 1" using sint_succ_below_cutoff [OF c] .
  have r: "(collatz_next ^^ k) (collatz_next n) = 1"
    using Suc.prems(1) by (simp add: funpow_swap1)
  have m: "\<forall>j<k. (collatz_next ^^ j) (collatz_next n) \<noteq> 1"
  proof (intro allI impI)
    fix j assume "j < k"
    then have "(collatz_next ^^ Suc j) n \<noteq> 1" using Suc.prems(2) by auto
    then show "(collatz_next ^^ j) (collatz_next n) \<noteq> 1" by (simp add: funpow_swap1)
  qed
  have "collatz_loop (collatz_next n) (s + 1) = (s + 1) + of_nat k"
    using Suc.IH [OF r m] s Suc.prems(3,4) by simp
  then show ?case by (simp add: collatz_loop_step [OF n c])
qed

lemma collatz_loop_never_one:
  "\<forall>j. sint s + int j \<le> 1000 \<longrightarrow> (collatz_next ^^ j) n \<noteq> 1 \<Longrightarrow> sint s \<le> 1001
     \<Longrightarrow> k = nat (1001 - sint s) \<Longrightarrow> collatz_loop n s = 1001"
proof (induction k arbitrary: n s)
  case 0
  then have "sint s = 1001" by simp
  then have "sint s = sint (1001 :: i32)" by simp
  then have "s = 1001" by (rule signed_word_eqI)
  then show ?case by (simp add: collatz_loop.simps i32_gt_s_def)
next
  case (Suc k)
  have le: "sint s \<le> 1000" using Suc.prems(3) by simp
  then have c: "\<not> i32_gt_s s 1000" by (simp add: i32_gt_s_def)
  have n: "n \<noteq> 1" using Suc.prems(1) le by (auto dest: spec [of _ 0])
  have s: "sint (s + 1) = sint s + 1" using sint_succ_below_cutoff [OF c] .
  have m: "\<forall>j. sint (s + 1) + int j \<le> 1000 \<longrightarrow> (collatz_next ^^ j) (collatz_next n) \<noteq> 1"
  proof (intro allI impI)
    fix j assume "sint (s + 1) + int j \<le> 1000"
    then have "sint s + int (Suc j) \<le> 1000" using s by simp
    then have "(collatz_next ^^ Suc j) n \<noteq> 1" using Suc.prems(1) by blast
    then show "(collatz_next ^^ j) (collatz_next n) \<noteq> 1" by (simp add: funpow_swap1)
  qed
  have "collatz_loop (collatz_next n) (s + 1) = 1001"
    using Suc.IH [OF m] s le Suc.prems(3) by simp
  then show ?case by (simp add: collatz_loop_step [OF n c])
qed

lemma collatz_next_zero: "collatz_next 0 = 0"
  by (simp add: collatz_next_def i32_rem_s_def i32_div_s_def)

lemma collatz_zero_iter: "(collatz_next ^^ j) 0 = 0"
  by (induction j) (simp_all add: collatz_next_zero)

lemma rem_s_even: "i32_rem_s n 2 = 0 \<longleftrightarrow> even (sint n)"
proof (cases "even (sint n)")
  case True
  then have "sint n smod 2 = 0" by (simp add: smod_int_alt_def)
  then show ?thesis using True by (simp add: i32_rem_s_def)
next
  case False
  then have "\<bar>sint n\<bar> mod 2 = 1" by presburger
  moreover have "sgn (sint n) = 1 \<or> sgn (sint n) = - 1"
    using False by (cases "sint n" "0 :: int" rule: linorder_cases) auto
  ultimately have "sint n smod 2 = 1 \<or> sint n smod 2 = - 1"
    by (auto simp: smod_int_alt_def)
  then have "i32_rem_s n 2 \<noteq> 0" by (auto simp: i32_rem_s_def)
  then show ?thesis using False by simp
qed

lemma collatz_next_sint:
  assumes "0 < sint n" and "3 * sint n + 1 < 2 ^ 31"
  shows "sint (collatz_next n) = (if even (sint n) then sint n div 2 else 3 * sint n + 1)"
proof (cases "even (sint n)")
  case True
  have "sint n sdiv 2 = sint n div 2"
    using assms(1) by (simp add: signed_divide_int_def)
  moreover have "- (2 ^ 31) \<le> sint n div 2" "sint n div 2 < 2 ^ 31"
    using assms by auto
  ultimately have "sint (i32_div_s n 2) = sint n div 2"
    by (simp add: i32_div_s_def sint_sbintrunc' signed_take_bit_int_eq_self_iff)
  then show ?thesis using True by (simp add: collatz_next_def rem_s_even)
next
  case False
  have "n * 3 + 1 = word_of_int (sint n * 3 + 1)" by simp
  then have "sint (n * 3 + 1) = signed_take_bit 31 (sint n * 3 + 1)"
    by (simp only: sint_sbintrunc') simp
  also have "\<dots> = sint n * 3 + 1"
    using assms by (simp add: signed_take_bit_int_eq_self_iff)
  finally show ?thesis using False by (simp add: collatz_next_def rem_s_even mult.commute)
qed

lemmas collatz_eval = collatz_next_def i32_rem_s_def i32_div_s_def

subsection \<open>Occurrences of a text in a text\<close>

lemma contains_appendI1: "contains K a \<Longrightarrow> contains K (a @ b)"
  by (auto simp: contains_iff) (metis append.assoc)

lemma contains_appendI2: "contains K b \<Longrightarrow> contains K (a @ b)"
  by (auto simp: contains_iff) (metis append.assoc)

lemma contains_drop: "contains K (drop n s) \<Longrightarrow> contains K s"
  using contains_appendI2 [of K "drop n s" "take n s"] by simp

lemma contains_dropWhile: "contains K (dropWhile P s) \<Longrightarrow> contains K s"
  using contains_appendI2 [of K "dropWhile P s" "takeWhile P s"] by simp

lemma starts_with_sep:
  "c \<notin> set K \<Longrightarrow> starts_with K (u @ c # v) \<longleftrightarrow> starts_with K u"
proof (induction K u rule: starts_with.induct)
  case (1 s)
  then show ?case by simp
next
  case (2 p ps)
  then show ?case by auto
next
  case (3 p ps d ds)
  then show ?case by simp
qed

lemma contains_sep:
  assumes "c \<notin> set K"
  shows "contains K (a @ c # b) \<longleftrightarrow> contains K a \<or> contains K b"
proof (induction a)
  case Nil
  have "starts_with K (c # b) \<longleftrightarrow> starts_with K []"
    using starts_with_sep [OF assms, of "[]" b] by simp
  then show ?case by (cases K) auto
next
  case (Cons x a)
  have "starts_with K (x # a @ c # b) \<longleftrightarrow> starts_with K (x # a)"
    using starts_with_sep [OF assms, of "x # a" b] by simp
  then show ?case using Cons by auto
qed

subsection \<open>The substitution of a type keyword\<close>

lemma spaces1_iff:
  "spaces1 s = Some rest \<longleftrightarrow> (\<exists>w r. s = w # r \<and> is_space w \<and> rest = dropWhile is_space r)"
  by (cases s) (auto simp: spaces1_def spaces0_def)

lemma lit_iff: "lit p s = Some rest \<longleftrightarrow> s = p @ rest"
  by (auto simp: lit_def starts_with_iff)

lemma match_kw_iff:
  "match_kw kw s = Some rest
     \<longleftrightarrow> (\<exists>w r. s = kw @ w # r \<and> is_space w \<and> rest = dropWhile is_space r)"
proof
  assume "match_kw kw s = Some rest"
  then obtain r1 where "lit kw s = Some r1" and "spaces1 r1 = Some rest"
    by (auto simp: match_kw_def split: Option.bind_splits)
  then show "\<exists>w r. s = kw @ w # r \<and> is_space w \<and> rest = dropWhile is_space r"
    by (auto simp: lit_iff spaces1_iff)
next
  assume "\<exists>w r. s = kw @ w # r \<and> is_space w \<and> rest = dropWhile is_space r"
  then obtain w r where s: "s = kw @ w # r" and w: "is_space w" and r: "rest = dropWhile is_space r"
    by blast
  have "lit kw s = Some (w # r)" by (simp add: lit_iff s)
  moreover have "spaces1 (w # r) = Some rest" using w r by (simp add: spaces1_iff)
  ultimately show "match_kw kw s = Some rest" by (simp add: match_kw_def)
qed

lemma match_kw_shorter:
  assumes "match_kw kw (c # cs) = Some rest"
  shows "length rest \<le> length cs"
proof -
  obtain w r where s: "c # cs = kw @ w # r" and r: "rest = dropWhile is_space r"
    using assms by (auto simp: match_kw_iff)
  have "length rest \<le> length r" by (simp add: r length_dropWhile_le)
  moreover have "length (c # cs) = length kw + Suc (length r)" by (simp add: s)
  ultimately show ?thesis by simp
qed

lemma sub_kw_match:
  assumes "\<not> pw" and "match_kw kw (c # cs) = Some rest"
  shows "sub_kw kw pw (c # cs) = ''int32_t '' @ sub_kw kw False rest"
  using assms match_kw_shorter [OF assms(2)] by simp

lemma sub_kw_copy:
  assumes "pw \<or> match_kw kw (c # cs) = None"
  shows "sub_kw kw pw (c # cs) = c # sub_kw kw (is_word c) cs"
  using assms by auto


declare sub_kw.simps(2) [simp del]

lemma space_not_word: "is_space c \<Longrightarrow> \<not> is_word c"
  by (auto simp: is_space_def is_word_def Let_def)

lemma pass_int: "sub_kw ''int'' pw (''int32_t '' @ r) = ''int32_t '' @ sub_kw ''int'' False r"
  by (simp add: sub_kw.simps(2) match_kw_def lit_def spaces1_def is_space_def is_word_def)

lemma pass_float: "sub_kw ''float'' pw (''int32_t '' @ r) = ''int32_t '' @ sub_kw ''float'' False r"
  by (simp add: sub_kw.simps(2) match_kw_def lit_def spaces1_def is_space_def is_word_def)

lemma int_through_float: "sub_kw ''int'' pw (''float'' @ z) = ''float'' @ sub_kw ''int'' True z"
  by (simp add: sub_kw.simps(2) match_kw_def lit_def spaces1_def is_space_def is_word_def)

lemma float_through_int32_t:
  "sub_kw ''float'' pw (''int32_t'' @ z) = ''int32_t'' @ sub_kw ''float'' True z"
  by (simp add: sub_kw.simps(2) match_kw_def lit_def spaces1_def is_space_def is_word_def)

lemma copied_prefix:
  "sub_kw kw True cs = u @ R \<Longrightarrow> list_all is_word u \<Longrightarrow> \<exists>r. cs = u @ r \<and> R = sub_kw kw True r"
proof (induction u arbitrary: cs)
  case Nil
  then show ?case by simp
next
  case (Cons a u)
  then obtain d ds where cs: "cs = d # ds" by (cases cs) auto
  have "sub_kw kw True (d # ds) = d # sub_kw kw (is_word d) ds"
    by (rule sub_kw_copy) simp
  then have d: "d = a" and rest: "sub_kw kw (is_word d) ds = u @ R"
    using Cons.prems(1) cs by auto
  have "is_word d" using Cons.prems(2) d by simp
  then obtain r where "ds = u @ r" and "R = sub_kw kw True r"
    using Cons.IH [of ds] rest Cons.prems(2) by auto
  then show ?case using cs d by auto
qed

lemma copied_head: "sub_kw kw True cs = w # R \<Longrightarrow> \<exists>r. cs = w # r"
proof (cases cs)
  case Nil
  assume "sub_kw kw True cs = w # R"
  then show ?thesis using Nil by simp
next
  case (Cons d ds)
  assume a: "sub_kw kw True cs = w # R"
  have "sub_kw kw True (d # ds) = d # sub_kw kw (is_word d) ds"
    by (rule sub_kw_copy) simp
  then show ?thesis using a Cons by auto
qed

lemma head_match_reflects:
  assumes "kw \<noteq> []" and "list_all is_word kw"
    and "match_kw kw (c # sub_kw kw (is_word c) cs) = Some rest'"
  shows "\<exists>rest. match_kw kw (c # cs) = Some rest"
proof -
  obtain k kw' where kw: "kw = k # kw'" using assms(1) by (cases kw) auto
  obtain w r where e: "c # sub_kw kw (is_word c) cs = kw @ w # r" and w: "is_space w"
    using assms(3) by (auto simp: match_kw_iff)
  have c: "c = k" and e': "sub_kw kw (is_word c) cs = kw' @ w # r"
    using e kw by auto
  have "is_word c" using assms(2) kw c by simp
  then have "sub_kw kw True cs = kw' @ (w # r)" using e' by simp
  moreover have "list_all is_word kw'" using assms(2) kw by simp
  ultimately obtain r0 where cs: "cs = kw' @ r0" and r0: "w # r = sub_kw kw True r0"
    using copied_prefix [of kw cs kw' "w # r"] by auto
  obtain r1 where "r0 = w # r1" using copied_head [of kw r0 w r] r0 by auto
  then have "c # cs = kw @ w # r1" using cs kw c by simp
  then show ?thesis using w by (auto simp: match_kw_iff)
qed

lemma sub_kw_idem:
  assumes "kw \<noteq> []" and "list_all is_word kw"
    and pass: "\<And>r. sub_kw kw False (''int32_t '' @ r) = ''int32_t '' @ sub_kw kw False r"
  shows "sub_kw kw pw (sub_kw kw pw x) = sub_kw kw pw x"
proof (induction x arbitrary: pw rule: length_induct)
  case (1 x)
  show ?case
  proof (cases x)
    case Nil
    then show ?thesis by simp
  next
    case (Cons c cs)
    show ?thesis
    proof (cases "pw \<or> match_kw kw (c # cs) = None")
      case True
      have out: "sub_kw kw pw (c # cs) = c # sub_kw kw (is_word c) cs"
        using True by (rule sub_kw_copy)
      have "pw \<or> match_kw kw (c # sub_kw kw (is_word c) cs) = None"
      proof (cases "match_kw kw (c # sub_kw kw (is_word c) cs)")
        case None
        then show ?thesis by simp
      next
        case (Some rest')
        then obtain rest where "match_kw kw (c # cs) = Some rest"
          using head_match_reflects [OF assms(1,2)] by blast
        then show ?thesis using True by simp
      qed
      then have "sub_kw kw pw (c # sub_kw kw (is_word c) cs)
                   = c # sub_kw kw (is_word c) (sub_kw kw (is_word c) cs)"
        by (rule sub_kw_copy)
      moreover have "sub_kw kw (is_word c) (sub_kw kw (is_word c) cs) = sub_kw kw (is_word c) cs"
        using 1 Cons by simp
      ultimately show ?thesis using out Cons by simp
    next
      case False
      then obtain rest where npw: "\<not> pw" and m: "match_kw kw (c # cs) = Some rest" by auto
      have out: "sub_kw kw pw (c # cs) = ''int32_t '' @ sub_kw kw False rest"
        using npw m by (rule sub_kw_match)
      have "length rest < length x" using match_kw_shorter [OF m] Cons by simp
      then have "sub_kw kw False (sub_kw kw False rest) = sub_kw kw False rest"
        using 1 by blast
      then show ?thesis using out Cons npw pass by simp
    qed
  qed
qed

lemma sub_int_idem: "sub_kw ''int'' pw (sub_kw ''int'' pw x) = sub_kw ''int'' pw x"
  by (rule sub_kw_idem [OF _ _ pass_int]) (simp_all add: is_word_def)

lemma sub_float_idem: "sub_kw ''float'' pw (sub_kw ''float'' pw x) = sub_kw ''float'' pw x"
  by (rule sub_kw_idem [OF _ _ pass_float]) (simp_all add: is_word_def)


lemma unchanged_int_no_head_match:
  assumes "sub_kw ''int'' pw (c # cs) = c # cs"
  shows "pw \<or> match_kw ''int'' (c # cs) = None"
proof (rule ccontr)
  assume "\<not> (pw \<or> match_kw ''int'' (c # cs) = None)"
  then obtain rest where npw: "\<not> pw" and m: "match_kw ''int'' (c # cs) = Some rest" by auto
  obtain w r where e: "c # cs = ''int'' @ w # r" and w: "is_space w"
    using m by (auto simp: match_kw_iff)
  have "sub_kw ''int'' pw (c # cs) = ''int32_t '' @ sub_kw ''int'' False rest"
    using npw m by (rule sub_kw_match)
  then have "w = CHR ''3''" using assms e by simp
  then show False using w by (simp add: is_space_def)
qed

lemma unchanged_after_spaces:
  assumes "kw \<noteq> []" and "list_all is_word kw"
  shows "sub_kw kw False r = r \<Longrightarrow> sub_kw kw False (dropWhile is_space r) = dropWhile is_space r"
proof (induction r)
  case Nil
  then show ?case by simp
next
  case (Cons a r)
  show ?case
  proof (cases "is_space a")
    case True
    obtain k kw' where kw: "kw = k # kw'" using assms(1) by (cases kw) auto
    have "is_word k" using assms(2) kw by simp
    then have "k \<noteq> a" using True space_not_word by auto
    then have "match_kw kw (a # r) = None"
      by (cases "match_kw kw (a # r)") (auto simp: match_kw_iff kw)
    then have "sub_kw kw False (a # r) = a # sub_kw kw (is_word a) r"
      by (intro sub_kw_copy) simp
    then have "sub_kw kw False r = r"
      using Cons.prems True space_not_word by simp
    then show ?thesis using Cons.IH True by simp
  next
    case False
    then show ?thesis using Cons.prems by simp
  qed
qed

lemma int_fixed_after_float:
  "sub_kw ''int'' pw y = y \<Longrightarrow> sub_kw ''int'' pw (sub_kw ''float'' pw y) = sub_kw ''float'' pw y"
proof (induction y arbitrary: pw rule: length_induct)
  case (1 y)
  show ?case
  proof (cases y)
    case Nil
    then show ?thesis by simp
  next
    case (Cons c cs)
    have nh: "pw \<or> match_kw ''int'' (c # cs) = None"
      using "1.prems" unfolding Cons by (rule unchanged_int_no_head_match)
    show ?thesis
    proof (cases "pw \<or> match_kw ''float'' (c # cs) = None")
      case True
      have outf: "sub_kw ''float'' pw (c # cs) = c # sub_kw ''float'' (is_word c) cs"
        using True by (rule sub_kw_copy)
      have "sub_kw ''int'' pw (c # cs) = c # sub_kw ''int'' (is_word c) cs"
        using nh by (rule sub_kw_copy)
      then have fixed: "sub_kw ''int'' (is_word c) cs = cs"
        using "1.prems" Cons by simp
      have ih: "sub_kw ''int'' (is_word c) (sub_kw ''float'' (is_word c) cs)
                  = sub_kw ''float'' (is_word c) cs"
        using 1 Cons fixed by simp
      have "pw \<or> match_kw ''int'' (c # sub_kw ''float'' (is_word c) cs) = None"
      proof (cases "match_kw ''int'' (c # sub_kw ''float'' (is_word c) cs)")
        case None
        then show ?thesis by simp
      next
        case (Some rest')
        then obtain w r where e: "c # sub_kw ''float'' (is_word c) cs = ''int'' @ w # r"
          and w: "is_space w"
          by (auto simp: match_kw_iff)
        have c: "c = CHR ''i''" and e': "sub_kw ''float'' (is_word c) cs = ''nt'' @ w # r"
          using e by auto
        have "is_word c" by (simp add: c is_word_def)
        then have "sub_kw ''float'' True cs = ''nt'' @ (w # r)" using e' by simp
        moreover have "list_all is_word ''nt''" by (simp add: is_word_def)
        ultimately obtain r0 where cs: "cs = ''nt'' @ r0" and r0: "w # r = sub_kw ''float'' True r0"
          using copied_prefix [of "''float''" cs "''nt''" "w # r"] by auto
        obtain r1 where "r0 = w # r1" using copied_head [of "''float''" r0 w r] r0 by auto
        then have "c # cs = ''int'' @ w # r1" using cs c by simp
        then have "match_kw ''int'' (c # cs) \<noteq> None" using w by (auto simp: match_kw_iff)
        then show ?thesis using nh by auto
      qed
      then have "sub_kw ''int'' pw (c # sub_kw ''float'' (is_word c) cs)
                   = c # sub_kw ''int'' (is_word c) (sub_kw ''float'' (is_word c) cs)"
        by (rule sub_kw_copy)
      then show ?thesis using outf ih Cons by simp
    next
      case False
      then obtain rest where npw: "\<not> pw" and m: "match_kw ''float'' (c # cs) = Some rest"
        by auto
      obtain w r where e: "c # cs = ''float'' @ w # r" and w: "is_space w"
        and rest: "rest = dropWhile is_space r"
        using m by (auto simp: match_kw_iff)
      have outf: "sub_kw ''float'' pw (c # cs) = ''int32_t '' @ sub_kw ''float'' False rest"
        using npw m by (rule sub_kw_match)
      have "sub_kw ''int'' pw (''float'' @ w # r) = ''float'' @ sub_kw ''int'' True (w # r)"
        by (rule int_through_float)
      moreover have "sub_kw ''int'' True (w # r) = w # sub_kw ''int'' (is_word w) r"
        by (rule sub_kw_copy) simp
      ultimately have "sub_kw ''int'' False r = r"
        using "1.prems" Cons e w space_not_word by simp
      then have "sub_kw ''int'' False rest = rest"
        unfolding rest by (intro unchanged_after_spaces) (simp_all add: is_word_def)
      moreover have "length rest < length y" using match_kw_shorter [OF m] Cons by simp
      ultimately have "sub_kw ''int'' False (sub_kw ''float'' False rest) = sub_kw ''float'' False rest"
        using 1 by blast
      then show ?thesis using outf Cons pass_int [of pw] by simp
    qed
  qed
qed

lemma narrow_idem:
  "sub_kw ''float'' False (sub_kw ''int'' False (sub_kw ''float'' False (sub_kw ''int'' False x)))
     = sub_kw ''float'' False (sub_kw ''int'' False x)"
proof -
  have "sub_kw ''int'' False (sub_kw ''float'' False (sub_kw ''int'' False x))
          = sub_kw ''float'' False (sub_kw ''int'' False x)"
    by (rule int_fixed_after_float) (rule sub_int_idem)
  then show ?thesis by (simp add: sub_float_idem)
qed

lemma changed_has_int32_t:
  "sub_kw kw pw x = x \<or> contains ''int32_t'' (sub_kw kw pw x)"
proof (induction x arbitrary: pw rule: length_induct)
  case (1 x)
  show ?case
  proof (cases x)
    case Nil
    then show ?thesis by simp
  next
    case (Cons c cs)
    show ?thesis
    proof (cases "pw \<or> match_kw kw (c # cs) = None")
      case True
      have out: "sub_kw kw pw (c # cs) = c # sub_kw kw (is_word c) cs"
        using True by (rule sub_kw_copy)
      have "sub_kw kw (is_word c) cs = cs \<or> contains ''int32_t'' (sub_kw kw (is_word c) cs)"
        using 1 Cons by simp
      then show ?thesis using out Cons by auto
    next
      case False
      then obtain rest where npw: "\<not> pw" and m: "match_kw kw (c # cs) = Some rest" by auto
      have "sub_kw kw pw (c # cs) = ''int32_t '' @ sub_kw kw False rest"
        using npw m by (rule sub_kw_match)
      then have "sub_kw kw pw (c # cs) = ''int32_t'' @ ('' '' @ sub_kw kw False rest)" by simp
      then have "starts_with ''int32_t'' (sub_kw kw pw (c # cs))"
        using starts_with_append by metis
      then have "contains ''int32_t'' (sub_kw kw pw (c # cs))"
        by (cases "sub_kw kw pw (c # cs)") auto
      then show ?thesis using Cons by simp
    qed
  qed
qed

lemma float_keeps_int32_t:
  "contains ''int32_t'' y \<Longrightarrow> contains ''int32_t'' (sub_kw ''float'' pw y)"
proof (induction y arbitrary: pw rule: length_induct)
  case (1 y)
  show ?case
  proof (cases y)
    case Nil
    then show ?thesis using "1.prems" by simp
  next
    case (Cons c cs)
    show ?thesis
    proof (cases "starts_with ''int32_t'' (c # cs)")
      case True
      then obtain z where "c # cs = ''int32_t'' @ z" by (auto simp: starts_with_iff)
      then have "sub_kw ''float'' pw (c # cs) = ''int32_t'' @ sub_kw ''float'' True z"
        using float_through_int32_t [of pw z] by simp
      then have "sub_kw ''float'' pw (c # cs) = [] @ ''int32_t'' @ sub_kw ''float'' True z"
        by simp
      then show ?thesis unfolding Cons contains_iff by blast
    next
      case False
      then have inner: "contains ''int32_t'' cs" using "1.prems" Cons by auto
      show ?thesis
      proof (cases "pw \<or> match_kw ''float'' (c # cs) = None")
        case True
        have "sub_kw ''float'' pw (c # cs) = c # sub_kw ''float'' (is_word c) cs"
          using True by (rule sub_kw_copy)
        moreover have "contains ''int32_t'' (sub_kw ''float'' (is_word c) cs)"
          using 1 Cons inner by simp
        ultimately show ?thesis using Cons by simp
      next
        case False
        then have "sub_kw ''float'' pw y = y \<or> contains ''int32_t'' (sub_kw ''float'' pw y)"
          using changed_has_int32_t by blast
        then show ?thesis using "1.prems" by auto
      qed
    qed
  qed
qed

subsection \<open>The include rule and the rules that stay quiet\<close>

lemma absent_after_insert:
  assumes "c1 \<notin> set K" and "c2 \<notin> set K" and "\<not> contains K mid" and "\<not> contains K (A @ B)"
  shows "\<not> contains K (A @ c1 # mid @ c2 # B)"
proof -
  have "\<not> contains K A" using assms(4) contains_appendI1 by blast
  moreover have "\<not> contains K B" using assms(4) contains_appendI2 by blast
  ultimately show ?thesis
    using assms(1,2,3) by (simp add: contains_sep)
qed

lemma slices_rejoin: "slice_to s k @ slice_from s k = s"
  by (simp add: slice_to_def slice_from_def)

lemma add_stdint_shape:
  "fst (add_stdint s ch) = s
   \<or> (\<exists>A B. A @ B = s \<and> fst (add_stdint s ch) = A @ CHR ''#'' # ''include <stdint.h>'' @ newline # B)
   \<or> fst (add_stdint s ch) = s @ newline # (CHR ''#'' # ''include <stdint.h>'') @ newline # []
   \<or> fst (add_stdint s ch) = [] @ CHR ''#'' # (''include <stdint.h>'' @ [newline]) @ newline # s"
proof -
  let ?k = "py_find s [newline] (py_rfind s ''#include'') + 1"
  have "slice_to s ?k @ slice_from s ?k = s" by (rule slices_rejoin)
  then show ?thesis
    unfolding add_stdint_def Let_def
    by (auto simp del: append_take_drop_id)
qed

lemma add_stdint_keeps_absent:
  assumes "K \<noteq> []" and "CHR ''#'' \<notin> set K" and "newline \<notin> set K"
    and "\<not> contains K ''include <stdint.h>''" and "\<not> contains K s"
  shows "\<not> contains K (fst (add_stdint s ch))"
proof -
  have m1: "\<not> contains K (CHR ''#'' # ''include <stdint.h>'')"
    using contains_sep [OF assms(2), of "[]" "''include <stdint.h>''"] assms(1,4) by simp
  have m2: "\<not> contains K (''include <stdint.h>'' @ [newline])"
    using contains_sep [OF assms(3), of "''include <stdint.h>''" "[]"] assms(1,4) by simp
  consider "fst (add_stdint s ch) = s"
    | A B where "A @ B = s"
        "fst (add_stdint s ch) = A @ CHR ''#'' # ''include <stdint.h>'' @ newline # B"
    | "fst (add_stdint s ch) = s @ newline # (CHR ''#'' # ''include <stdint.h>'') @ newline # []"
    | "fst (add_stdint s ch) = [] @ CHR ''#'' # (''include <stdint.h>'' @ [newline]) @ newline # s"
    using add_stdint_shape [of s ch] by blast
  then show ?thesis
  proof cases
    case 1
    then show ?thesis using assms(5) by simp
  next
    case 2
    show ?thesis
      unfolding 2(2) using assms 2(1) by (intro absent_after_insert) simp_all
  next
    case 3
    show ?thesis
      unfolding 3 using assms m1 by (intro absent_after_insert) simp_all
  next
    case 4
    show ?thesis
      unfolding 4 using assms m2 by (intro absent_after_insert) simp_all
  qed
qed

lemma add_stdint_adds_include:
  "add_stdint s ch = (s, ch) \<or> contains ''#include <stdint.h>'' (fst (add_stdint s ch))"
proof -
  have a: "contains ''#include <stdint.h>'' (A @ ''#include <stdint.h>'' @ B)" for A B
    unfolding contains_iff by blast
  have "contains ''#include <stdint.h>''
          (slice_to s k @ ''#include <stdint.h>'' @ [newline] @ slice_from s k)" for k
    using a [of "slice_to s k" "[newline] @ slice_from s k"] by simp
  moreover have "contains ''#include <stdint.h>'' (s @ [newline] @ ''#include <stdint.h>'' @ [newline])"
    using a [of "s @ [newline]" "[newline]"] by simp
  moreover have "contains ''#include <stdint.h>'' (''#include <stdint.h>'' @ [newline, newline] @ s)"
    using a [of "[]" "[newline, newline] @ s"] by simp
  ultimately show ?thesis
    unfolding add_stdint_def Let_def by (simp del: contains.simps append.simps)
qed

lemma add_stdint_skips:
  "contains ''int32_t'' c \<or> contains ''#include <stdint.h>'' c \<Longrightarrow> add_stdint c ch = (c, ch)"
  by (auto simp: add_stdint_def)


lemma absent_before_int32_t:
  assumes "K \<noteq> []" and "list_all is_word K"
    and "CHR ''3'' \<notin> set K" and "CHR ''2'' \<notin> set K" and "CHR ''_'' \<notin> set K"
    and "\<not> contains K ''int''" and "\<not> contains K ''t''"
    and "\<not> contains K u" and "u = [] \<or> \<not> is_word (last u)"
  shows "\<not> contains K (u @ ''int32_t'')"
proof -
  have base: "\<not> contains K (u @ ''int'')"
  proof (cases u rule: rev_cases)
    case Nil
    then show ?thesis using assms(6) by simp
  next
    case (snoc u0 d)
    then have "\<not> is_word d" using assms(9) by simp
    then have "d \<notin> set K" using assms(2) by (auto simp: list_all_iff)
    moreover have "\<not> contains K u0" using assms(8) snoc contains_appendI1 by blast
    ultimately have "\<not> contains K (u0 @ d # ''int'')"
      using assms(6) by (simp add: contains_sep)
    then show ?thesis using snoc by simp
  qed
  have "\<not> contains K ((u @ ''int'') @ CHR ''3'' # [])"
    using contains_sep [OF assms(3), of "u @ ''int''" "[]"] base assms(1) by simp
  then have "\<not> contains K ((u @ ''int3'') @ CHR ''2'' # [])"
    using contains_sep [OF assms(4), of "u @ ''int3''" "[]"] assms(1) by simp
  then have "\<not> contains K ((u @ ''int32'') @ CHR ''_'' # ''t'')"
    using contains_sep [OF assms(5), of "u @ ''int32''" "''t''"] assms(7) by simp
  then show ?thesis by simp
qed

lemma sub_kw_keeps_absent:
  assumes "K \<noteq> []" and "list_all is_word K"
    and "CHR ''3'' \<notin> set K" and "CHR ''2'' \<notin> set K" and "CHR ''_'' \<notin> set K"
    and "CHR '' '' \<notin> set K"
    and "\<not> contains K ''int''" and "\<not> contains K ''t''"
  shows "\<not> contains K (u @ x) \<Longrightarrow> pw \<or> u = [] \<or> \<not> is_word (last u)
           \<Longrightarrow> \<not> contains K (u @ sub_kw kw pw x)"
proof (induction x arbitrary: u pw rule: length_induct)
  case (1 x)
  show ?case
  proof (cases x)
    case Nil
    then show ?thesis using "1.prems" by simp
  next
    case (Cons c cs)
    show ?thesis
    proof (cases "pw \<or> match_kw kw (c # cs) = None")
      case True
      have out: "sub_kw kw pw (c # cs) = c # sub_kw kw (is_word c) cs"
        using True by (rule sub_kw_copy)
      have "\<not> contains K ((u @ [c]) @ cs)" using "1.prems"(1) Cons by simp
      moreover have "is_word c \<or> u @ [c] = [] \<or> \<not> is_word (last (u @ [c]))" by simp
      ultimately have "\<not> contains K ((u @ [c]) @ sub_kw kw (is_word c) cs)"
        using 1 Cons by (metis length_Cons lessI)
      then show ?thesis using out Cons by simp
    next
      case False
      then obtain rest where npw: "\<not> pw" and m: "match_kw kw (c # cs) = Some rest" by auto
      obtain w r where e: "c # cs = kw @ w # r" and rest: "rest = dropWhile is_space r"
        using m by (auto simp: match_kw_iff)
      have out: "sub_kw kw pw (c # cs) = ''int32_t '' @ sub_kw kw False rest"
        using npw m by (rule sub_kw_match)
      have nu: "\<not> contains K u" using "1.prems"(1) contains_appendI1 by blast
      have "\<not> contains K r"
        using "1.prems"(1) Cons e contains_appendI2 [of K r "u @ kw @ [w]"] by auto
      then have nrest: "\<not> contains K rest"
        using contains_dropWhile rest by blast
      have "\<not> contains K (u @ ''int32_t'')"
        using assms(1,2,3,4,5,7,8) nu "1.prems"(2) npw by (intro absent_before_int32_t) auto
      then have "\<not> contains K ((u @ ''int32_t'') @ CHR '' '' # rest)"
        using nrest contains_sep [OF assms(6), of "u @ ''int32_t''" rest] by simp
      then have pre: "\<not> contains K ((u @ ''int32_t '') @ rest)" by simp
      have len: "length rest < length x" using match_kw_shorter [OF m] Cons by simp
      have "False \<or> u @ ''int32_t '' = [] \<or> \<not> is_word (last (u @ ''int32_t ''))"
        by (simp add: is_word_def)
      then have "\<not> contains K ((u @ ''int32_t '') @ sub_kw kw False rest)"
        using 1 len pre by blast
      then show ?thesis using out Cons by simp
    qed
  qed
qed

lemma narrow_keeps_absent:
  assumes "K \<noteq> []" and "list_all is_word K"
    and "CHR ''3'' \<notin> set K" and "CHR ''2'' \<notin> set K" and "CHR ''_'' \<notin> set K"
    and "CHR '' '' \<notin> set K"
    and "\<not> contains K ''int''" and "\<not> contains K ''t''"
    and "\<not> contains K x"
  shows "\<not> contains K (sub_kw ''float'' False (sub_kw ''int'' False x))"
proof -
  have "\<not> contains K ([] @ x)" using assms(9) by simp
  then have a: "\<not> contains K ([] @ sub_kw ''int'' False x)"
    by (rule sub_kw_keeps_absent [OF assms(1-8)]) simp
  have "\<not> contains K ([] @ sub_kw ''float'' False (sub_kw ''int'' False x))"
    by (rule sub_kw_keeps_absent [OF assms(1-8) a]) simp
  then show ?thesis by simp
qed

lemma match_main_has_main: "match_main s = Some g \<Longrightarrow> contains ''main'' s"
proof -
  assume "match_main s = Some g"
  then obtain r1 r2 r3 where a: "lit ''int32_t'' s = Some r1" and b: "spaces1 r1 = Some r2"
    and c: "lit ''main'' r2 = Some r3"
    by (auto simp: match_main_def split: Option.bind_splits)
  obtain w r where r1: "r1 = w # r" and r2: "r2 = dropWhile is_space r"
    using b by (auto simp: spaces1_iff)
  have "r2 = [] @ ''main'' @ r3" using c by (simp add: lit_iff)
  then have "contains ''main'' r2" unfolding contains_iff by blast
  then have "contains ''main'' r" using r2 contains_dropWhile by blast
  then have "contains ''main'' r1" using r1 by simp
  moreover have "s = ''int32_t'' @ r1" using a by (simp add: lit_iff)
  ultimately show ?thesis using contains_appendI2 by metis
qed

lemma re_search_main_has_main: "re_search match_main t = Some g \<Longrightarrow> contains ''main'' t"
proof (induction t)
  case Nil
  then show ?case by simp
next
  case (Cons c cs)
  show ?case
  proof (cases "match_main (c # cs)")
    case None
    then have "contains ''main'' cs" using Cons by simp
    then show ?thesis by simp
  next
    case (Some a)
    then show ?thesis using match_main_has_main by (cases a) blast
  qed
qed


lemma quiet_after_first_rules:
  assumes "K \<in> {''printf'', ''scanf'', ''malloc'', ''main''}" and "\<not> contains K s"
  shows "\<not> contains K (sub_kw ''float'' False (sub_kw ''int'' False (fst (add_stdint s ch))))"
proof -
  have "\<not> contains K (fst (add_stdint s ch))"
    using assms by (intro add_stdint_keeps_absent) (auto simp: newline_def)
  then show ?thesis
    using assms(1) by (intro narrow_keeps_absent) (auto simp: is_word_def)
qed

lemma transform_when_quiet:
  assumes "t = sub_kw ''float'' False (sub_kw ''int'' False (fst (add_stdint x [])))"
    and "\<not> contains ''printf'' t" and "\<not> contains ''scanf'' t"
    and "\<not> contains ''main'' t" and "\<not> contains ''malloc'' t"
  shows "transform_for_zkengine x
           = (t, snd (add_stdint x []) @ [''Converted int/float to int32_t''])"
proof -
  have "re_search match_main t = None"
    using assms(4) re_search_main_has_main by (cases "re_search match_main t") auto
  then show ?thesis
    using assms
    by (simp add: transform_for_zkengine_def type_conversions_def remove_io_def fix_main_def
        convert_malloc_def case_prod_beta)
qed

lemma second_run_adds_no_include:
  "add_stdint (sub_kw ''float'' False (sub_kw ''int'' False (fst (add_stdint s ch)))) ch'
     = (sub_kw ''float'' False (sub_kw ''int'' False (fst (add_stdint s ch))), ch')"
proof -
  let ?c1 = "fst (add_stdint s ch)"
  let ?i = "sub_kw ''int'' False ?c1"
  let ?t = "sub_kw ''float'' False ?i"
  show ?thesis
  proof (cases "?t = ?c1")
    case False
    have "contains ''int32_t'' ?t"
    proof (cases "?i = ?c1")
      case True
      then show ?thesis using False changed_has_int32_t [of "''float''" False ?c1] by auto
    next
      case False
      then have "contains ''int32_t'' ?i"
        using changed_has_int32_t [of "''int''" False ?c1] by auto
      then show ?thesis by (rule float_keeps_int32_t)
    qed
    then show ?thesis by (simp add: add_stdint_skips)
  next
    case True
    show ?thesis
    proof (cases "add_stdint s ch = (s, ch)")
      case same: True
      then have c1: "?c1 = s" by simp
      have "add_stdint s ch' = (s, ch')"
        using same by (auto simp: add_stdint_def Let_def split: if_splits)
      then show ?thesis using True c1 by simp
    next
      case False
      then have "contains ''#include <stdint.h>'' ?c1"
        using add_stdint_adds_include [of s ch] by auto
      then show ?thesis using True by (simp add: add_stdint_skips)
    qed
  qed
qed

lemma normalize_twice_when_quiet:
  assumes "\<not> contains ''printf'' s" and "\<not> contains ''scanf'' s"
    and "\<not> contains ''malloc'' s" and "\<not> contains ''main'' s"
  shows "transform_for_zkengine (fst (transform_for_zkengine s))
           = (fst (transform_for_zkengine s), [''Converted int/float to int32_t''])"
proof -
  let ?t = "sub_kw ''float'' False (sub_kw ''int'' False (fst (add_stdint s [])))"
  have q: "\<not> contains ''printf'' ?t" "\<not> contains ''scanf'' ?t"
    "\<not> contains ''main'' ?t" "\<not> contains ''malloc'' ?t"
    using assms by (simp_all add: quiet_after_first_rules)
  have first: "transform_for_zkengine s
      = (?t, snd (add_stdint s []) @ [''Converted int/float to int32_t''])"
    using q by (intro transform_when_quiet) simp_all
  have inc: "add_stdint ?t [] = (?t, [])"
    by (rule second_run_adds_no_include)
  have nar: "sub_kw ''float'' False (sub_kw ''int'' False ?t) = ?t"
    by (rule narrow_idem)
  have "transform_for_zkengine ?t
      = (?t, snd (add_stdint ?t []) @ [''Converted int/float to int32_t''])"
    using q by (intro transform_when_quiet) (simp_all add: inc nar)
  then show ?thesis by (simp add: first inc)
qed

lemmas transform_eval = transform_for_zkengine_def add_stdint_def type_conversions_def
  remove_io_def fix_main_def convert_malloc_def define_buffer_size_def
  declare_stack_buffer_def sub_kw.simps(2) match_kw_def match_io_def match_main_def
  match_include_def match_malloc_def match_free_def lit_def spaces0_def spaces1_def
  until0_def until1_def is_space_def is_word_def py_find_def py_rfind_def slice_to_def
  slice_from_def newline_def

section \<open>The claims\<close>

text \<open>
  C1, as the code has it. For every source text with none of \<open>printf\<close>, \<open>scanf\<close>,
  \<open>malloc\<close> and \<open>main\<close> in it, so that only the include rule and the type narrowing
  apply, running \<open>transform_for_zkengine\<close> on the text that a first run returned gives
  that text unchanged. The change list of the second run is not empty: it has the one
  entry \<open>Converted int/float to int32_t\<close>, which every run appends. No include
  directive is added and no \<open>Added #include <stdint.h>\<close> entry is logged the second
  time.
\<close>

theorem normalize_twice_keeps_text:
  assumes "\<not> contains ''printf'' s" and "\<not> contains ''scanf'' s"
    and "\<not> contains ''malloc'' s" and "\<not> contains ''main'' s"
  shows "fst (transform_for_zkengine (fst (transform_for_zkengine s)))
           = fst (transform_for_zkengine s)
    \<and> snd (transform_for_zkengine (fst (transform_for_zkengine s)))
           = [''Converted int/float to int32_t'']
    \<and> ''Added #include <stdint.h>''
           \<notin> set (snd (transform_for_zkengine (fst (transform_for_zkengine s))))"
  using normalize_twice_when_quiet [OF assms] by simp

theorem normalize_twice_keeps_text_witness:
  "\<not> contains ''printf'' ''int add(int a, float b) { return a; }''
   \<and> \<not> contains ''scanf'' ''int add(int a, float b) { return a; }''
   \<and> \<not> contains ''malloc'' ''int add(int a, float b) { return a; }''
   \<and> \<not> contains ''main'' ''int add(int a, float b) { return a; }''
   \<and> transform_for_zkengine ''int add(int a, float b) { return a; }''
       = (''#include <stdint.h>\<newline>\<newline>int32_t add(int32_t a, int32_t b) { return a; }'',
          [''Added #include <stdint.h>'', ''Converted int/float to int32_t''])
   \<and> transform_for_zkengine
         ''#include <stdint.h>\<newline>\<newline>int32_t add(int32_t a, int32_t b) { return a; }''
       = (''#include <stdint.h>\<newline>\<newline>int32_t add(int32_t a, int32_t b) { return a; }'',
          [''Converted int/float to int32_t''])"
proof -
  let ?s = "''int add(int a, float b) { return a; }''"
  have q: "\<not> contains ''printf'' ?s" "\<not> contains ''scanf'' ?s"
    "\<not> contains ''malloc'' ?s" "\<not> contains ''main'' ?s"
    by simp_all
  have first: "transform_for_zkengine ?s
       = (''#include <stdint.h>\<newline>\<newline>int32_t add(int32_t a, int32_t b) { return a; }'',
          [''Added #include <stdint.h>'', ''Converted int/float to int32_t''])"
    by (simp add: transform_eval)
  have "transform_for_zkengine (fst (transform_for_zkengine ?s))
       = (fst (transform_for_zkengine ?s), [''Converted int/float to int32_t''])"
    using normalize_twice_keeps_text [OF q] by (simp add: prod_eq_iff)
  then show ?thesis using q first by simp
qed

theorem normalize_twice_counterexample:
  "snd (transform_for_zkengine (fst (transform_for_zkengine ''int x;'')))
     = [''Converted int/float to int32_t'']
   \<and> snd (transform_for_zkengine (fst (transform_for_zkengine ''printf(msg);'')))
     = [''Converted int/float to int32_t'', ''Removed printf statements'']
   \<and> snd (transform_for_zkengine
            (fst (transform_for_zkengine ''int main(int argc) { return 0; }'')))
     = [''Converted int/float to int32_t'', ''Fixed main signature for hardcoded values'']
   \<and> fst (transform_for_zkengine
            (fst (transform_for_zkengine ''int main() { char *p = (char*)malloc(10); }'')))
     \<noteq> fst (transform_for_zkengine ''int main() { char *p = (char*)malloc(10); }'')"
proof -
  have a1: "fst (transform_for_zkengine ''int x;'') = ''#include <stdint.h>\<newline>\<newline>int32_t x;''"
    by (simp add: transform_eval)
  have a2: "snd (transform_for_zkengine ''#include <stdint.h>\<newline>\<newline>int32_t x;'')
      = [''Converted int/float to int32_t'']"
    by (simp add: transform_eval)
  have b1: "fst (transform_for_zkengine ''printf(msg);'') = ''/* printf removed */;''"
    by (simp add: transform_eval)
  have b2: "snd (transform_for_zkengine ''/* printf removed */;'')
      = [''Converted int/float to int32_t'', ''Removed printf statements'']"
    by (simp add: transform_eval)
  have c1: "fst (transform_for_zkengine ''int main(int argc) { return 0; }'')
      = ''#include <stdint.h>\<newline>\<newline>int32_t main() { return 0; }''"
    by (simp add: transform_eval)
  have c2: "snd (transform_for_zkengine
                  ''#include <stdint.h>\<newline>\<newline>int32_t main() { return 0; }'')
      = [''Converted int/float to int32_t'', ''Fixed main signature for hardcoded values'']"
    by (simp add: transform_eval)
  have d1: "fst (transform_for_zkengine ''int main() { char *p = (char*)malloc(10); }'')
      = ''#include <stdint.h>\<newline>#define BUFFER_SIZE 1000\<newline>\<newline>\<newline>int32_t main() {\<newline>    int32_t stack_buffer[BUFFER_SIZE];\<newline> char *p = (char*)malloc(10); }''"
    by (simp add: transform_eval)
  have d2: "fst (transform_for_zkengine
      ''#include <stdint.h>\<newline>#define BUFFER_SIZE 1000\<newline>\<newline>\<newline>int32_t main() {\<newline>    int32_t stack_buffer[BUFFER_SIZE];\<newline> char *p = (char*)malloc(10); }'')
      = ''#include <stdint.h>\<newline>#define BUFFER_SIZE 1000\<newline>\<newline>\<newline>int32_t main() {\<newline>    int32_t stack_buffer[BUFFER_SIZE];\<newline>\<newline>    int32_t stack_buffer[BUFFER_SIZE];\<newline> char *p = (char*)malloc(10); }''"
    by (simp add: transform_eval)
  show ?thesis
    unfolding a1 a2 b1 b2 c1 c2 d1 d2 by simp
qed

text \<open>
  C2, as the code has it. The cue of the Collatz family is looked for in the lower-cased
  text, so it is found whatever the case of its letters: two texts that differ in letter
  case only agree on it, and any spelling of \<open>collatz\<close> anywhere in a text matches. The
  cues of the other five families, the digital-root family with \<open>digital_root\<close> and
  \<open>digit_sum\<close> among them, are looked for in the text as it is: for each of them there
  are two texts that differ in letter case only, one with the cue and one without.
\<close>

theorem collatz_cue_ignores_case_others_do_not:
  "(lower t = lower t' \<longrightarrow> cue F_CollatzSteps t = cue F_CollatzSteps t')
   \<and> (lower u = ''collatz'' \<longrightarrow> cue F_CollatzSteps (p @ u @ q))
   \<and> (\<forall>f \<in> {F_PrimalityCheck, F_DigitalRoot, F_Fibonacci, F_Factorial, F_GCD}.
         \<exists>a b. lower a = lower b \<and> cue f a \<and> \<not> cue f b)"
proof -
  have "cue F_CollatzSteps (p @ u @ q)" if "lower u = ''collatz''"
  proof -
    have "lower (p @ u @ q) = lower p @ ''collatz'' @ lower q"
      using that by (simp add: lower_append)
    then show ?thesis by (auto simp: contains_iff)
  qed
  moreover have "\<exists>a b. lower a = lower b \<and> cue F_PrimalityCheck a \<and> \<not> cue F_PrimalityCheck b"
    by (rule exI [of _ "''is_prime''"], rule exI [of _ "''IS_PRIME''"]) (simp add: lower_defs)
  moreover have "\<exists>a b. lower a = lower b \<and> cue F_DigitalRoot a \<and> \<not> cue F_DigitalRoot b"
    by (rule exI [of _ "''digit_sum''"], rule exI [of _ "''DIGIT_SUM''"]) (simp add: lower_defs)
  moreover have "\<exists>a b. lower a = lower b \<and> cue F_Fibonacci a \<and> \<not> cue F_Fibonacci b"
    by (rule exI [of _ "''fibonacci''"], rule exI [of _ "''Fibonacci''"]) (simp add: lower_defs)
  moreover have "\<exists>a b. lower a = lower b \<and> cue F_Factorial a \<and> \<not> cue F_Factorial b"
    by (rule exI [of _ "''factorial''"], rule exI [of _ "''Factorial''"]) (simp add: lower_defs)
  moreover have "\<exists>a b. lower a = lower b \<and> cue F_GCD a \<and> \<not> cue F_GCD b"
    by (rule exI [of _ "''gcd''"], rule exI [of _ "''GCD''"]) (simp add: lower_defs)
  ultimately show ?thesis by simp
qed

theorem collatz_cue_ignores_case_others_do_not_witness:
  "lower ''Collatz(27)'' = lower ''COLLATZ(27)''
   \<and> cue F_CollatzSteps ''Collatz(27)'' = cue F_CollatzSteps ''COLLATZ(27)''
   \<and> lower ''CoLLaTz'' = ''collatz''
   \<and> cue F_CollatzSteps (''int '' @ ''CoLLaTz'' @ ''(int n);'')"
proof -
  have a: "lower ''Collatz(27)'' = lower ''COLLATZ(27)''" by (simp add: lower_defs)
  have b: "lower ''CoLLaTz'' = ''collatz''" by (simp add: lower_defs)
  show ?thesis
    using collatz_cue_ignores_case_others_do_not
            [of "''Collatz(27)''" "''COLLATZ(27)''" "''CoLLaTz''" "''int ''" "''(int n);''"] a b
    by blast
qed

theorem digit_sum_cue_is_case_sensitive_counterexample:
  "lower ''DIGIT_SUM(n)'' = lower ''digit_sum(n)''
   \<and> cue F_DigitalRoot ''digit_sum(n)''
   \<and> \<not> cue F_DigitalRoot ''DIGIT_SUM(n)''
   \<and> match_fingerprint ''digit_sum(n)'' = Inr (DigitalRoot 12345)
   \<and> match_fingerprint ''DIGIT_SUM(n)'' = Inr Unrecognized"
  by (simp add: match_fingerprint_def probe_defs lower_defs)

text \<open>
  C3, as the code has it. For a text in which a unary family has matched, the extraction
  goes through the candidate names in priority order and tries, for each name, the
  assignment probe of that name and then the call probe, before it goes to the next
  name. The first probe that succeeds decides: its digits go to \<open>int\<close>, which gives the
  value, or raises on more than 4300 digits. The default of the family is used only when
  every probe fails. A text with the assignment \<open>number_to_check = 23\<close> and the call
  \<open>is_prime(99)\<close> gives 23, since \<open>number_to_check\<close> is the first name of the primality
  family; so does every text with a primality cue in which the first assignment to
  \<open>number_to_check\<close> has the digits 23.
\<close>

theorem extraction_tries_call_after_each_name:
  "(f \<noteq> [] \<longrightarrow>
      extract_value t names (Some f) d
        = (case first_some (probes_of_source t names f) of Some r \<Rightarrow> r | None \<Rightarrow> Inr d))
   \<and> probes_of_source t [n1, n2, n3] f
        = [assign_probe n1 t, call_probe f t, assign_probe n2 t, call_probe f t,
           assign_probe n3 t, call_probe f t]
   \<and> (cue F_PrimalityCheck t \<longrightarrow>
        match_fingerprint t = map_sum id PrimalityCheck
          (extract_value t [''number_to_check'', ''n'', ''num''] (Some ''is_prime'') 17))
   \<and> (\<not> cue F_PrimalityCheck t \<and> cue F_CollatzSteps t \<longrightarrow>
        match_fingerprint t = map_sum id CollatzSteps
          (extract_value t [''starting_number'', ''start'', ''n''] (Some ''collatz'') 27))
   \<and> (\<not> cue F_PrimalityCheck t \<and> \<not> cue F_CollatzSteps t \<and> cue F_DigitalRoot t \<longrightarrow>
        match_fingerprint t = map_sum id DigitalRoot
          (extract_value t [''input_number'', ''num'', ''n''] (Some ''digital_root'') 12345))
   \<and> (\<not> cue F_PrimalityCheck t \<and> \<not> cue F_CollatzSteps t \<and> \<not> cue F_DigitalRoot t
        \<and> cue F_Fibonacci t \<longrightarrow>
        match_fingerprint t = map_sum id Fibonacci
          (extract_value t [''n'', ''num'', ''value''] (Some ''fibonacci'') 10))
   \<and> (\<not> cue F_PrimalityCheck t \<and> \<not> cue F_CollatzSteps t \<and> \<not> cue F_DigitalRoot t
        \<and> \<not> cue F_Fibonacci t \<and> cue F_Factorial t \<longrightarrow>
        match_fingerprint t = map_sum id Factorial
          (extract_value t [''n'', ''num'', ''value''] (Some ''factorial'') 5))
   \<and> (length t \<le> 4300 \<longrightarrow> (\<exists>v. extract_value t names (Some f) d = Inr v))
   \<and> (cue F_PrimalityCheck t \<and> re_search (match_assign ''number_to_check'') t = Some ''23''
        \<longrightarrow> match_fingerprint t = Inr (PrimalityCheck 23))
   \<and> match_fingerprint ''number_to_check = 23; is_prime(99)'' = Inr (PrimalityCheck 23)"
proof -
  have ex: "match_fingerprint ''number_to_check = 23; is_prime(99)'' = Inr (PrimalityCheck 23)"
    by (simp add: match_fingerprint_def probe_defs)
  have order: "probes_of_source t [n1, n2, n3] f
        = [assign_probe n1 t, call_probe f t, assign_probe n2 t, call_probe f t,
           assign_probe n3 t, call_probe f t]"
    by (simp add: probes_of_source_def)
  have short: "\<exists>v. extract_value t names (Some f) d = Inr v" if "length t \<le> 4300"
    using extract_value_short [OF that] .
  have first: "match_fingerprint t = Inr (PrimalityCheck 23)"
    if "cue F_PrimalityCheck t" and "re_search (match_assign ''number_to_check'') t = Some ''23''"
    using that by (simp add: match_fingerprint_def py_int_def max_str_digits_def digit_val_def)
  show ?thesis
    using extract_value_probes [of f t names d] ex order short first
    by (simp add: match_fingerprint_def del: extract_value.simps)
qed

theorem extraction_tries_call_after_each_name_witness:
  "cue F_PrimalityCheck ''number_to_check = 23; is_prime(99)''
   \<and> re_search (match_assign ''number_to_check'') ''number_to_check = 23; is_prime(99)''
       = Some ''23''
   \<and> first_some (probes_of_source ''number_to_check = 23; is_prime(99)''
        [''number_to_check'', ''n'', ''num''] ''is_prime'') = Some (Inr 23)
   \<and> extract_value ''number_to_check = 23; is_prime(99)''
        [''number_to_check'', ''n'', ''num''] (Some ''is_prime'') 17 = Inr 23
   \<and> match_fingerprint ''number_to_check = 23; is_prime(99)'' = Inr (PrimalityCheck 23)"
proof -
  have "first_some (probes_of_source ''number_to_check = 23; is_prime(99)''
        [''number_to_check'', ''n'', ''num''] ''is_prime'') = Some (Inr 23)"
    by (simp add: probes_of_source_def probe_defs)
  moreover have "re_search (match_assign ''number_to_check'')
        ''number_to_check = 23; is_prime(99)'' = Some ''23''"
    by (simp add: probe_defs)
  ultimately show ?thesis
    using extraction_tries_call_after_each_name
            [of "''is_prime''" "''number_to_check = 23; is_prime(99)''"
                "[''number_to_check'', ''n'', ''num'']" 17]
    by simp
qed

theorem call_probe_precedes_later_names_counterexample:
  "cue F_PrimalityCheck ''int n = 5; return is_prime(99);''
   \<and> assign_probe ''number_to_check'' ''int n = 5; return is_prime(99);'' = None
   \<and> assign_probe ''n'' ''int n = 5; return is_prime(99);'' = Some (Inr 5)
   \<and> call_probe ''is_prime'' ''int n = 5; return is_prime(99);'' = Some (Inr 99)
   \<and> first_some (probes_of_spec ''int n = 5; return is_prime(99);''
        [''number_to_check'', ''n'', ''num''] ''is_prime'') = Some (Inr 5)
   \<and> match_fingerprint ''int n = 5; return is_prime(99);'' = Inr (PrimalityCheck 99)"
  by (simp add: match_fingerprint_def probes_of_spec_def probe_defs)

text \<open>
  C4, as the code has it. The loop of the Collatz module ends for every starting value,
  zero and the negative values included: it leaves when \<open>$n\<close> is 1 and when \<open>$steps\<close> is
  above 1000, and \<open>$steps\<close> grows by one in every round. The count that the module
  returns is between 0 and 1001. When the values \<open>n\<close>, \<open>next n\<close>, \<open>next (next n)\<close>, ...
  reach 1 for the first time after \<open>k\<close> steps, with \<open>k\<close> at most 1001, the module returns
  \<open>k\<close>: one step for each transition. When they do not reach 1 within 1000 steps it
  returns 1001. A transition halves an even value and takes an odd value \<open>n\<close> to
  \<open>3n + 1\<close>, in 32-bit arithmetic; for a positive \<open>n\<close> with \<open>3n + 1\<close> below \<open>2^31\<close> these
  are the numbers themselves.
\<close>

theorem collatz_module_returns_at_most_1001:
  "0 \<le> sint (collatz_main n dummy) \<and> sint (collatz_main n dummy) \<le> 1001
   \<and> ((collatz_next ^^ k) n = 1 \<and> (\<forall>j<k. (collatz_next ^^ j) n \<noteq> 1) \<and> k \<le> 1001
        \<longrightarrow> collatz_main n dummy = of_nat k)
   \<and> ((\<forall>j\<le>1000. (collatz_next ^^ j) n \<noteq> 1) \<longrightarrow> collatz_main n dummy = 1001)
   \<and> collatz_next n = (if even (sint n) then i32_div_s n 2 else n * 3 + 1)
   \<and> (0 < sint n \<and> 3 * sint n + 1 < 2 ^ 31
        \<longrightarrow> sint (collatz_next n) = (if even (sint n) then sint n div 2 else 3 * sint n + 1))"
proof -
  have bounds: "0 \<le> sint (collatz_main n dummy) \<and> sint (collatz_main n dummy) \<le> 1001"
    using collatz_loop_bounds [of 0 n] by (simp add: collatz_main_def)
  have reach: "collatz_main n dummy = of_nat k"
    if "(collatz_next ^^ k) n = 1" and "\<forall>j<k. (collatz_next ^^ j) n \<noteq> 1" and "k \<le> 1001"
    using collatz_loop_reaches_one [OF that(1,2), of 0] that(3) by (simp add: collatz_main_def)
  have never: "collatz_main n dummy = 1001" if "\<forall>j\<le>1000. (collatz_next ^^ j) n \<noteq> 1"
    using that collatz_loop_never_one [of 0 n 1001] by (simp add: collatz_main_def)
  have step: "collatz_next n = (if even (sint n) then i32_div_s n 2 else n * 3 + 1)"
    by (simp add: collatz_next_def rem_s_even)
  show ?thesis
    using bounds reach never step collatz_next_sint [of n] by blast
qed

theorem collatz_module_returns_at_most_1001_witness:
  "(collatz_next ^^ 8) 6 = 1
   \<and> (collatz_next ^^ 7) 6 = 2
   \<and> collatz_main 6 0 = 8
   \<and> sint (collatz_main 6 0) \<le> 1001
   \<and> sint (collatz_next 6) = 3"
proof -
  have one: "collatz_next 6 = 3" by (simp add: collatz_eval)
  have two: "collatz_next 3 = 10" by (simp add: collatz_eval)
  have three: "collatz_next 10 = 5" by (simp add: collatz_eval)
  have four: "collatz_next 5 = 16" by (simp add: collatz_eval)
  have five: "collatz_next 16 = 8" by (simp add: collatz_eval)
  have six: "collatz_next 8 = 4" by (simp add: collatz_eval)
  have seven: "collatz_next 4 = 2" by (simp add: collatz_eval)
  have eight: "collatz_next 2 = 1" by (simp add: collatz_eval)
  have e8: "(8::nat) = Suc (Suc (Suc (Suc (Suc (Suc (Suc (Suc 0)))))))" by simp
  have e7: "(7::nat) = Suc (Suc (Suc (Suc (Suc (Suc (Suc 0))))))" by simp
  have r8: "(collatz_next ^^ 8) 6 = 1"
    unfolding e8 by (simp add: one two three four five six seven eight)
  have r7: "(collatz_next ^^ 7) 6 = 2"
    unfolding e7 by (simp add: one two three four five six seven)
  have first: "\<forall>j<8. (collatz_next ^^ j) 6 \<noteq> 1"
    unfolding e8 by (simp add: All_less_Suc one two three four five six seven)
  show ?thesis
    using collatz_module_returns_at_most_1001 [of 6 0 8] r8 r7 first one by simp
qed

theorem collatz_module_returns_1001_counterexample:
  "collatz_main 0 0 = 1001 \<and> \<not> sint (collatz_main 0 0) \<le> 1000"
proof -
  have "collatz_loop 0 0 = 1001"
    by (rule collatz_loop_never_one [where k = 1001]) (simp_all add: collatz_zero_iter)
  then show ?thesis by (simp add: collatz_main_def)
qed

text \<open>
  C5. The property is that two runs of \<open>compile_to_wasm\<close> on the same text and file name
  return the same module text and two distinct artifact names, and the source announces
  a unique file name. The module text is indeed the same. The name, however, has only
  the first eight hexadecimal digits of the UUID of the run, and nothing compares it
  with the names already in the shared directory. The two runs below draw the distinct
  UUIDs \<open>12345678-aaaa-4aaa-8aaa-aaaaaaaaaaaa\<close> and \<open>12345678-bbbb-4bbb-9bbb-bbbbbbbbbbbb\<close>:
  both succeed and both return the name \<open>prog_12345678.wat\<close>, the second run writes over
  the file of the first, and the shared directory holds one file after the two runs.
\<close>

theorem same_uuid_prefix_same_artifact_name:
  "uuid4 env0 \<noteq> uuid4 env1
   \<and> str_uuid (uuid4 env0) = ''12345678-aaaa-4aaa-8aaa-aaaaaaaaaaaa''
   \<and> str_uuid (uuid4 env1) = ''12345678-bbbb-4bbb-9bbb-bbbbbbbbbbbb''
   \<and> fst (compile_to_wasm ''int main() { return 0; }'' ''prog.c'' env0 world0)
     = Inr \<lparr>success = True, wat_content = Some default_wat,
            wasm_file = Some ''prog_12345678.wat'', wasm_size = Some 111, error = None\<rparr>
   \<and> fst (compile_to_wasm ''int main() { return 0; }'' ''prog.c'' env1
        (snd (compile_to_wasm ''int main() { return 0; }'' ''prog.c'' env0 world0)))
     = Inr \<lparr>success = True, wat_content = Some default_wat,
            wasm_file = Some ''prog_12345678.wat'', wasm_size = Some 111, error = None\<rparr>
   \<and> files (snd (compile_to_wasm ''int main() { return 0; }'' ''prog.c'' env0 world0))
        ''/home/zk/agentkit/zkengine/example_wasms/prog_12345678.wat'' = Some default_wat
   \<and> dom (files (snd (compile_to_wasm ''int main() { return 0; }'' ''prog.c'' env1
        (snd (compile_to_wasm ''int main() { return 0; }'' ''prog.c'' env0 world0)))))
     = {''/home/zk/agentkit/zkengine/example_wasms/prog_12345678.wat''}"
proof -
  let ?src = "''int main() { return 0; }''"
  let ?w1 = "snd (compile_to_wasm ?src ''prog.c'' env0 world0)"
  let ?path = "''/home/zk/agentkit/zkengine/example_wasms/prog_12345678.wat''"
  have gen: "generate_wat_from_c_analysis ?src = Inr default_wat"
    by (simp add: generate_wat_from_c_analysis_def match_fingerprint_def lower_def lower_char_def)
  have size: "utf8_length default_wat = 111"
    by (simp add: utf8_length_def default_wat_def newline_def)
  have name0: "final_wat_name ''prog.c'' env0 = ''prog_12345678.wat''"
    by (simp add: final_wat_name_def base_name_def unique_id_env0)
  have name1: "final_wat_name ''prog.c'' env1 = ''prog_12345678.wat''"
    by (simp add: final_wat_name_def base_name_def unique_id_env1)
  have run0: "fst (compile_to_wasm ?src ''prog.c'' env0 world0)
      = Inr (artifact default_wat ''prog.c'' env0)"
    by (rule compile_to_wasm_ok [OF gen]) (simp add: env0_no_fault)
  have run1: "fst (compile_to_wasm ?src ''prog.c'' env1 ?w1)
      = Inr (artifact default_wat ''prog.c'' env1)"
    by (rule compile_to_wasm_ok [OF gen]) (simp add: env1_no_fault)
  have t0: "tmp_name env0 = ''/tmp/tmpk3v9''" by (simp add: env0_def)
  have t1: "tmp_name env1 = ''/tmp/tmpq7x2''" by (simp add: env1_def)
  have w1: "files ?w1 = (\<lambda>p. if starts_with ''/tmp/tmpk3v9/'' p then None
                            else if p = ?path then Some default_wat
                            else if p = ''/tmp/tmpk3v9/prog_12345678.wat'' then Some default_wat
                            else None)"
    by (subst compile_to_wasm_files [OF gen])
       (auto simp: fun_eq_iff env0_no_fault name0 path_join_def wasm_dir_env0 t0 world0_def)
  have w2: "files (snd (compile_to_wasm ?src ''prog.c'' env1 ?w1))
      = (\<lambda>p. if starts_with ''/tmp/tmpq7x2/'' p then None
             else if p = ?path then Some default_wat
             else if p = ''/tmp/tmpq7x2/prog_12345678.wat'' then Some default_wat
             else files ?w1 p)"
    by (subst compile_to_wasm_files [OF gen])
       (auto simp: fun_eq_iff env1_no_fault name1 path_join_def wasm_dir_env1 t1)
  have first: "files ?w1 ?path = Some default_wat"
    by (simp add: w1)
  have "dom (files (snd (compile_to_wasm ?src ''prog.c'' env1 ?w1))) = {?path}"
    unfolding w2 w1 by (auto simp: dom_def split: if_splits)
  moreover have "uuid4 env0 \<noteq> uuid4 env1"
    by (simp add: env0_def env1_def)
  moreover have "str_uuid (uuid4 env0) = ''12345678-aaaa-4aaa-8aaa-aaaaaaaaaaaa''"
    by (simp add: env0_def str_uuid_def hex32_def upt_rec)
  moreover have "str_uuid (uuid4 env1) = ''12345678-bbbb-4bbb-9bbb-bbbbbbbbbbbb''"
    by (simp add: env1_def str_uuid_def hex32_def upt_rec)
  ultimately show ?thesis
    using run0 run1 first by (simp add: artifact_def name0 name1 size)
qed

text \<open>
  C6. \<open>compile_to_wasm\<close> and the endpoint \<open>compile_transformed\<close> never pass an exception
  on to their caller: for every text, file name, environment and file system they return
  a result. An exception of the generation, which is the \<open>ValueError\<close> of \<open>int\<close> on a
  literal of more than 4300 digits, is caught before any file is touched; an exception
  of a file operation is caught as well. The result is a success exactly when the
  generation returns and no file operation of the run fails. Otherwise it has
  \<open>success = False\<close>, its \<open>error\<close> is the text of the exception, and it has no module
  text, no file name and no size. The endpoint returns what \<open>compile_to_wasm\<close> returns,
  and its own handler turns any exception of the call that it awaits into such a failure.
\<close>

theorem compile_never_raises:
  "(\<exists>r w'. compile_to_wasm src fname e w = (Inr r, w'))
   \<and> (\<exists>r w'. compile_transformed req e w = (Inr r, w'))
   \<and> fst (compile_transformed req e w)
       = fst (compile_to_wasm (req_code req) (req_filename req) e w)
   \<and> (\<forall>x. generate_wat_from_c_analysis src = Inl x \<longrightarrow>
         compile_to_wasm src fname e w
           = (Inr \<lparr>success = False, wat_content = None, wasm_file = None, wasm_size = None,
                   error = Some (str_exn x)\<rparr>, w))
   \<and> (length src \<le> 4300 \<longrightarrow> (\<exists>wat. generate_wat_from_c_analysis src = Inr wat))
   \<and> (\<forall>r. fst (compile_to_wasm src fname e w) = Inr r \<longrightarrow>
         (success r \<longleftrightarrow> (\<exists>wat. generate_wat_from_c_analysis src = Inr wat)
                        \<and> (\<forall>op \<in> set (performed_ops fname e). fault e op = None))
         \<and> (\<not> success r \<longrightarrow>
               wat_content r = None \<and> wasm_file r = None \<and> wasm_size r = None
               \<and> (case generate_wat_from_c_analysis src of
                     Inl x \<Rightarrow> error r = Some (str_exn x)
                   | Inr wat \<Rightarrow> \<exists>op \<in> set (performed_ops fname e). \<exists>msg.
                                  fault e op = Some msg \<and> error r = Some msg)))
   \<and> (\<exists>r w'. respond call w = (Inr r, w'))
   \<and> (\<forall>x w'. call w = (Inl x, w') \<longrightarrow>
         respond call w
           = (Inr \<lparr>success = False, wat_content = None, wasm_file = None, wasm_size = None,
                   error = Some (str_exn x)\<rparr>, w'))
   \<and> (\<forall>r w'. call w = (Inr r, w') \<longrightarrow>
         respond call w
           = (Inr (if success r
                   then \<lparr>success = True, wat_content = wat_content r,
                         wasm_file = wasm_file r, wasm_size = wasm_size r, error = None\<rparr>
                   else \<lparr>success = False, wat_content = None, wasm_file = None,
                         wasm_size = None,
                         error = Some (case error r of
                                         Some msg \<Rightarrow> msg
                                       | None \<Rightarrow> ''Unknown compilation error'')\<rparr>), w'))"
proof -
  have raised: "compile_to_wasm src fname e w
           = (Inr \<lparr>success = False, wat_content = None, wasm_file = None, wasm_size = None,
                   error = Some (str_exn x)\<rparr>, w)"
    if "generate_wat_from_c_analysis src = Inl x" for x
    using compile_to_wasm_raised [OF that] by (simp add: failure_def)
  have handler: "respond call w
           = (Inr \<lparr>success = False, wat_content = None, wasm_file = None, wasm_size = None,
                   error = Some (str_exn x)\<rparr>, w')"
    if "call w = (Inl x, w')" for x w'
    using respond_raised [where call = call, OF that] by (simp add: failure_def)
  have copied: "respond call w
           = (Inr (if success r
                   then \<lparr>success = True, wat_content = wat_content r,
                         wasm_file = wasm_file r, wasm_size = wasm_size r, error = None\<rparr>
                   else \<lparr>success = False, wat_content = None, wasm_file = None,
                         wasm_size = None,
                         error = Some (case error r of
                                         Some msg \<Rightarrow> msg
                                       | None \<Rightarrow> ''Unknown compilation error'')\<rparr>), w')"
    if "call w = (Inr r, w')" for r w'
    using respond_returned [where call = call, OF that] .
  have total': "\<exists>r w'. compile_transformed req e w = (Inr r, w')"
    unfolding compile_transformed_def by (rule respond_returns)
  have short: "\<exists>wat. generate_wat_from_c_analysis src = Inr wat" if "length src \<le> 4300"
    using generate_short [OF that] .
  have res: "(success r \<longleftrightarrow> (\<exists>wat. generate_wat_from_c_analysis src = Inr wat)
                        \<and> (\<forall>op \<in> set (performed_ops fname e). fault e op = None))
         \<and> (\<not> success r \<longrightarrow>
               wat_content r = None \<and> wasm_file r = None \<and> wasm_size r = None
               \<and> (case generate_wat_from_c_analysis src of
                     Inl x \<Rightarrow> error r = Some (str_exn x)
                   | Inr wat \<Rightarrow> \<exists>op \<in> set (performed_ops fname e). \<exists>msg.
                                  fault e op = Some msg \<and> error r = Some msg))"
    if "fst (compile_to_wasm src fname e w) = Inr r" for r
    using compile_to_wasm_success_iff [OF that] compile_to_wasm_failure [OF that] by blast
  show ?thesis
    using compile_to_wasm_returns [of src fname e w] total' compile_transformed_same [of req e w]
      raised short res respond_returns [of call w] handler copied
    by blast
qed

theorem compile_never_raises_witness:
  "generate_wat_from_c_analysis long_source
     = Inl (ValueError
         (''Exceeds the limit (4300 digits) for integer string conversion: value has 4301''
          @ '' digits; use sys.set_int_max_str_digits() to increase the limit''))
   \<and> compile_to_wasm long_source ''prog.c'' env0 world0
       = (Inr \<lparr>success = False, wat_content = None, wasm_file = None, wasm_size = None,
               error = Some
                 (''Exceeds the limit (4300 digits) for integer string conversion: value has 4301''
                  @ '' digits; use sys.set_int_max_str_digits() to increase the limit'')\<rparr>,
          world0)
   \<and> fst (compile_transformed \<lparr>req_code = long_source, req_filename = ''prog.c''\<rparr> env0 world0)
       = Inr \<lparr>success = False, wat_content = None, wasm_file = None, wasm_size = None,
              error = Some
                (''Exceeds the limit (4300 digits) for integer string conversion: value has 4301''
                 @ '' digits; use sys.set_int_max_str_digits() to increase the limit'')\<rparr>
   \<and> length ''int main() { return 0; }'' \<le> 4300
   \<and> fault env_denied (MakeDirs (wasm_dir env_denied)) = Some ''Permission denied''
   \<and> fst (compile_to_wasm ''int main() { return 0; }'' ''prog.c'' env_denied world0)
       = Inr \<lparr>success = False, wat_content = None, wasm_file = None, wasm_size = None,
              error = Some ''Permission denied''\<rparr>
   \<and> fst (compile_transformed
            \<lparr>req_code = ''int main() { return 0; }'', req_filename = ''prog.c''\<rparr>
            env_denied world0)
       = Inr \<lparr>success = False, wat_content = None, wasm_file = None, wasm_size = None,
              error = Some ''Permission denied''\<rparr>
   \<and> io_lift (Inl (OSError ''No space left on device'')) world0
       = (Inl (OSError ''No space left on device''), world0)
   \<and> respond (io_lift (Inl (OSError ''No space left on device''))) world0
       = (Inr \<lparr>success = False, wat_content = None, wasm_file = None, wasm_size = None,
               error = Some ''No space left on device''\<rparr>, world0)
   \<and> respond (io_return \<lparr>success = False, wat_content = None, wasm_file = None,
                              wasm_size = None, error = None\<rparr>) world0
       = (Inr \<lparr>success = False, wat_content = None, wasm_file = None, wasm_size = None,
               error = Some ''Unknown compilation error''\<rparr>, world0)"
proof -
  let ?msg = "''Exceeds the limit (4300 digits) for integer string conversion: value has 4301''
              @ '' digits; use sys.set_int_max_str_digits() to increase the limit''"
  let ?src = "''int main() { return 0; }''"
  have n: "str_nat 4301 = ''4301''"
    by (simp add: str_nat.simps)
  have gen: "generate_wat_from_c_analysis long_source = Inl (ValueError ?msg)"
    unfolding long_source_def
    using generation_raises_over_cap [of long_literal]
    by (simp add: long_literal_def is_digit_def n)
  have denied: "fst (compile_to_wasm ?src ''prog.c'' env_denied world0)
       = Inr \<lparr>success = False, wat_content = None, wasm_file = None, wasm_size = None,
              error = Some ''Permission denied''\<rparr>"
    by (simp add: compile_to_wasm_cases env_denied_def env0_def failure_def str_exn_def
        generate_wat_from_c_analysis_def match_fingerprint_def lower_def lower_char_def)
  have fault: "fault env_denied (MakeDirs (wasm_dir env_denied)) = Some ''Permission denied''"
    by (simp add: env_denied_def)
  have lift: "io_lift (Inl (OSError ''No space left on device'')) world0
       = (Inl (OSError ''No space left on device''), world0)"
    by (simp add: io_lift_def)
  note a = compile_never_raises [of long_source "''prog.c''" env0 world0
      "\<lparr>req_code = long_source, req_filename = ''prog.c''\<rparr>"
      "io_lift (Inl (OSError ''No space left on device''))"]
  note b = compile_never_raises [of ?src "''prog.c''" env_denied world0
      "\<lparr>req_code = ?src, req_filename = ''prog.c''\<rparr>"
      "io_return \<lparr>success = False, wat_content = None, wasm_file = None,
                   wasm_size = None, error = None\<rparr>"]
  have "compile_to_wasm long_source ''prog.c'' env0 world0
       = (Inr \<lparr>success = False, wat_content = None, wasm_file = None, wasm_size = None,
               error = Some (str_exn (ValueError ?msg))\<rparr>, world0)"
    using a gen by blast
  then have run: "compile_to_wasm long_source ''prog.c'' env0 world0
       = (Inr \<lparr>success = False, wat_content = None, wasm_file = None, wasm_size = None,
               error = Some ?msg\<rparr>, world0)"
    by (simp add: str_exn_def)
  have endpoint: "fst (compile_transformed \<lparr>req_code = long_source, req_filename = ''prog.c''\<rparr>
                    env0 world0)
       = Inr \<lparr>success = False, wat_content = None, wasm_file = None, wasm_size = None,
              error = Some ?msg\<rparr>"
    using a run by simp
  have endpoint': "fst (compile_transformed \<lparr>req_code = ?src, req_filename = ''prog.c''\<rparr>
                     env_denied world0)
       = Inr \<lparr>success = False, wat_content = None, wasm_file = None, wasm_size = None,
              error = Some ''Permission denied''\<rparr>"
    using b denied by simp
  have "respond (io_lift (Inl (OSError ''No space left on device''))) world0
       = (Inr \<lparr>success = False, wat_content = None, wasm_file = None, wasm_size = None,
               error = Some (str_exn (OSError ''No space left on device''))\<rparr>, world0)"
    using a lift by blast
  then have handler: "respond (io_lift (Inl (OSError ''No space left on device''))) world0
       = (Inr \<lparr>success = False, wat_content = None, wasm_file = None, wasm_size = None,
               error = Some ''No space left on device''\<rparr>, world0)"
    by (simp add: str_exn_def)
  have "io_return \<lparr>success = False, wat_content = None, wasm_file = None,
                   wasm_size = None, error = None\<rparr> world0
       = (Inr \<lparr>success = False, wat_content = None, wasm_file = None,
                wasm_size = None, error = None\<rparr>, world0)"
    by (simp add: io_return_def)
  with b have "respond (io_return \<lparr>success = False, wat_content = None, wasm_file = None,
                                  wasm_size = None, error = None\<rparr>) world0
       = (Inr (if success \<lparr>success = False, wat_content = None, wasm_file = None,
                            wasm_size = None, error = None\<rparr>
               then \<lparr>success = True, wat_content = None, wasm_file = None,
                     wasm_size = None, error = None\<rparr>
               else \<lparr>success = False, wat_content = None, wasm_file = None, wasm_size = None,
                     error = Some (case error \<lparr>success = False, wat_content = None,
                                               wasm_file = None, wasm_size = None,
                                               error = None\<rparr> of
                                     Some msg \<Rightarrow> msg
                                   | None \<Rightarrow> ''Unknown compilation error'')\<rparr>), world0)"
    by auto
  then have unknown: "respond (io_return \<lparr>success = False, wat_content = None,
                     wasm_file = None, wasm_size = None, error = None\<rparr>) world0
       = (Inr \<lparr>success = False, wat_content = None, wasm_file = None, wasm_size = None,
               error = Some ''Unknown compilation error''\<rparr>, world0)"
    by simp
  show ?thesis
    using gen run endpoint fault denied endpoint' lift handler unknown by simp
qed

text \<open>
  C7. For every text with none of the cues of the six families, the fingerprint is
  Unrecognized and the generated module is the default one: its exported function has the
  one instruction \<open>i32.const 42\<close>, so it returns 42. No literal is converted for such a
  text, so the generation does not raise, and the compilation succeeds: whenever the file
  operations of the run succeed, the result has \<open>success = True\<close> and carries this module.
\<close>

theorem unrecognized_text_gets_default_module:
  assumes "\<forall>f \<in> set priority. \<not> cue f t"
  shows \<open>match_fingerprint t = Inr Unrecognized
    \<and> generate_wat_from_c_analysis t = Inr
        ''(module\<newline>  ;; Default computation\<newline>  (func (export "main") (param $dummy i32) (result i32)\<newline>    i32.const 42\<newline>  )\<newline>)''
    \<and> default_main dummy = 42
    \<and> ((\<forall>op \<in> set (performed_ops fname e). fault e op = None)
        \<longrightarrow> fst (compile_to_wasm t fname e w)
              = Inr \<lparr>success = True, wat_content = Some default_wat,
                     wasm_file = Some (final_wat_name fname e), wasm_size = Some 111,
                     error = None\<rparr>)\<close>
proof -
  have fp: "match_fingerprint t = Inr Unrecognized"
    using assms by (simp add: match_fingerprint_def priority_def)
  then have gen: "generate_wat_from_c_analysis t = Inr default_wat"
    by (simp add: generate_wat_from_c_analysis_def)
  have lit_text: \<open>default_wat =
      ''(module\<newline>  ;; Default computation\<newline>  (func (export "main") (param $dummy i32) (result i32)\<newline>    i32.const 42\<newline>  )\<newline>)''\<close>
    by (simp add: default_wat_def newline_def)
  have size: "utf8_length default_wat = 111"
    by (simp add: utf8_length_def default_wat_def newline_def)
  have run: "fst (compile_to_wasm t fname e w)
      = Inr \<lparr>success = True, wat_content = Some default_wat,
             wasm_file = Some (final_wat_name fname e), wasm_size = Some 111, error = None\<rparr>"
    if "\<forall>op \<in> set (performed_ops fname e). fault e op = None"
    using compile_to_wasm_ok [OF gen that, of w] by (simp add: artifact_def size)
  have gen': \<open>generate_wat_from_c_analysis t = Inr
        ''(module\<newline>  ;; Default computation\<newline>  (func (export "main") (param $dummy i32) (result i32)\<newline>    i32.const 42\<newline>  )\<newline>)''\<close>
    using gen lit_text by simp
  show ?thesis
    using fp gen' run by (simp add: default_main_def)
qed

theorem unrecognized_text_gets_default_module_witness:
  "match_fingerprint ''int main() { return 7 * 6; }'' = Inr Unrecognized
   \<and> fst (compile_to_wasm ''int main() { return 7 * 6; }'' ''answer.c'' env0 world0)
       = Inr \<lparr>success = True, wat_content = Some default_wat,
              wasm_file = Some ''answer_12345678.wat'', wasm_size = Some 111, error = None\<rparr>"
proof -
  have none: "\<forall>f \<in> set priority. \<not> cue f ''int main() { return 7 * 6; }''"
    by (simp add: priority_def lower_def lower_char_def)
  have ok: "\<forall>op \<in> set (performed_ops ''answer.c'' env0). fault env0 op = None"
    by (simp add: env0_no_fault)
  have name: "final_wat_name ''answer.c'' env0 = ''answer_12345678.wat''"
    by (simp add: final_wat_name_def base_name_def unique_id_env0)
  show ?thesis
    using unrecognized_text_gets_default_module [OF none, of _ "''answer.c''" env0 world0] ok
    by (simp add: name)
qed

text \<open>
  C8. The matcher tests the cues in the fixed order primality, Collatz, digital root,
  Fibonacci, factorial, GCD, and takes the branch of the first family whose cue is in the
  text, or the default branch when none is: what it returns is what that branch
  returns, and a fingerprint that it returns is of that family. A text with both a
  primality cue and a Collatz cue is classified as a primality check, and the module
  generated for it is the primality module, for the value that the extraction of the
  primality family gives.
\<close>

theorem first_matching_family_wins:
  "match_fingerprint t
     = family_branch
         (case find (\<lambda>f. cue f t) priority of Some f \<Rightarrow> f | None \<Rightarrow> F_Unrecognized) t
   \<and> (\<forall>fp. match_fingerprint t = Inr fp \<longrightarrow>
         family_of fp
           = (case find (\<lambda>f. cue f t) priority of Some f \<Rightarrow> f | None \<Rightarrow> F_Unrecognized))
   \<and> (\<forall>f fp. family_branch f t = Inr fp \<longrightarrow> family_of fp = f)
   \<and> (length t \<le> 4300 \<longrightarrow> (\<exists>fp. match_fingerprint t = Inr fp))
   \<and> priority = [F_PrimalityCheck, F_CollatzSteps, F_DigitalRoot, F_Fibonacci, F_Factorial,
                  F_GCD]
   \<and> (cue F_PrimalityCheck t \<and> cue F_CollatzSteps t
        \<longrightarrow> match_fingerprint t = family_branch F_PrimalityCheck t
          \<and> (\<forall>fp. match_fingerprint t = Inr fp \<longrightarrow> family_of fp = F_PrimalityCheck)
          \<and> generate_wat_from_c_analysis t
              = map_sum id prime_wat
                  (extract_value t [''number_to_check'', ''n'', ''num''] (Some ''is_prime'') 17))"
proof -
  let ?first = "case find (\<lambda>f. cue f t) priority of Some f \<Rightarrow> f | None \<Rightarrow> F_Unrecognized"
  have branch: "match_fingerprint t = family_branch ?first t"
    by (simp add: match_fingerprint_def family_branch_def priority_def
        del: extract_value.simps)
  have fam: "family_of fp = f" if "family_branch f t = Inr fp" for f fp
    using that
    by (cases f)
       (auto simp: family_branch_def map_sum_def split: sum.splits simp del: extract_value.simps)
  have ret: "family_of fp = ?first" if "match_fingerprint t = Inr fp" for fp
    using that fam [of ?first fp] unfolding branch by simp
  have short: "\<exists>fp. match_fingerprint t = Inr fp" if "length t \<le> 4300"
    using match_fingerprint_short [OF that] .
  have prime: "match_fingerprint t = family_branch F_PrimalityCheck t
      \<and> (\<forall>fp. match_fingerprint t = Inr fp \<longrightarrow> family_of fp = F_PrimalityCheck)
      \<and> generate_wat_from_c_analysis t
          = map_sum id prime_wat
              (extract_value t [''number_to_check'', ''n'', ''num''] (Some ''is_prime'') 17)"
    if "cue F_PrimalityCheck t"
  proof -
    have f: "?first = F_PrimalityCheck"
      using that by (simp add: priority_def)
    have m: "match_fingerprint t = family_branch F_PrimalityCheck t"
      using branch unfolding f .
    have g: "generate_wat_from_c_analysis t
          = map_sum id prime_wat
              (extract_value t [''number_to_check'', ''n'', ''num''] (Some ''is_prime'') 17)"
      unfolding generate_wat_from_c_analysis_def m family_branch_def
      by (cases "extract_value t [''number_to_check'', ''n'', ''num''] (Some ''is_prime'') 17")
         simp_all
    show ?thesis
      using m g ret unfolding f by blast
  qed
  show ?thesis
    using branch ret fam short prime by (simp add: priority_def del: extract_value.simps)
qed

theorem first_matching_family_wins_witness:
  "cue F_PrimalityCheck ''int collatz(int n); int is_prime(int n);''
   \<and> cue F_CollatzSteps ''int collatz(int n); int is_prime(int n);''
   \<and> length ''int collatz(int n); int is_prime(int n);'' \<le> 4300
   \<and> match_fingerprint ''int collatz(int n); int is_prime(int n);''
       = Inr (PrimalityCheck 17)
   \<and> family_branch F_PrimalityCheck ''int collatz(int n); int is_prime(int n);''
       = Inr (PrimalityCheck 17)
   \<and> generate_wat_from_c_analysis ''int collatz(int n); int is_prime(int n);''
       = Inr (prime_wat 17)"
proof -
  let ?t = "''int collatz(int n); int is_prime(int n);''"
  have p: "cue F_PrimalityCheck ?t"
    by simp
  have c: "cue F_CollatzSteps ?t"
    by (simp add: lower_def lower_char_def)
  have v: "extract_value ?t [''number_to_check'', ''n'', ''num''] (Some ''is_prime'') 17 = Inr 17"
    by (simp add: probe_defs)
  have b: "family_branch F_PrimalityCheck ?t = Inr (PrimalityCheck 17)"
    unfolding family_branch_def using v by simp
  show ?thesis
    using first_matching_family_wins [of ?t] p c b v
    by (simp add: priority_def del: extract_value.simps)
qed

text \<open>
  C9. For every input text, the change list that \<open>transform_for_zkengine\<close> returns
  contains the entry \<open>Converted int/float to int32_t\<close>: the entry is appended without a
  condition, whether or not the text has an \<open>int\<close> or a \<open>float\<close> and whether or not it
  is already normalized. So the change list is never empty, also on the text that a first
  run returned.
\<close>

theorem conversion_entry_always_logged:
  "''Converted int/float to int32_t'' \<in> set (snd (transform_for_zkengine s))
   \<and> snd (transform_for_zkengine s) \<noteq> []
   \<and> ''Converted int/float to int32_t''
        \<in> set (snd (transform_for_zkengine (fst (transform_for_zkengine s))))"
proof -
  have "''Converted int/float to int32_t'' \<in> set (snd (transform_for_zkengine s))"
    by (rule conversion_logged)
  moreover have "''Converted int/float to int32_t''
      \<in> set (snd (transform_for_zkengine (fst (transform_for_zkengine s))))"
    by (rule conversion_logged)
  ultimately show ?thesis by auto
qed

theorem conversion_entry_always_logged_witness:
  "''Converted int/float to int32_t'' \<in> set (snd (transform_for_zkengine ''return 0;''))
   \<and> snd (transform_for_zkengine ''return 0;'') \<noteq> []"
  using conversion_entry_always_logged [of "''return 0;''"] by simp

text \<open>
  C10. The base name of the persisted artifact is the file name that the caller gave with
  every occurrence of \<open>.c\<close> removed, not only a trailing extension: an occurrence in the
  middle of the name goes as well. The file name \<open>my.code.c\<close> gives the base name
  \<open>myode\<close>, and a successful run returns, and writes into the shared directory, a name
  that starts with \<open>myode_\<close>.
\<close>

theorem base_name_removes_every_dot_c:
  "base_name (a @ ''.c'' @ b) = base_name a @ base_name b
   \<and> base_name ''my.code.c'' = ''myode''
   \<and> (\<forall>r. fst (compile_to_wasm src fname e w) = Inr r \<and> success r
          \<longrightarrow> wasm_file r = Some (base_name fname @ ''_'' @ unique_id e @ ''.wat''))
   \<and> (\<forall>r. fst (compile_to_wasm src ''my.code.c'' e w) = Inr r \<and> success r
          \<longrightarrow> wasm_file r = Some (''myode_'' @ unique_id e @ ''.wat'')
            \<and> (\<not> starts_with (tmp_name e @ ''/'')
                     (path_join (wasm_dir e) (''myode_'' @ unique_id e @ ''.wat''))
                 \<longrightarrow> (\<exists>wat. generate_wat_from_c_analysis src = Inr wat
                       \<and> files (snd (compile_to_wasm src ''my.code.c'' e w))
                            (path_join (wasm_dir e) (''myode_'' @ unique_id e @ ''.wat''))
                          = Some wat)))"
proof -
  have ex: "base_name ''my.code.c'' = ''myode''"
    by (simp add: base_name_def)
  have name: "wasm_file r = Some (base_name f @ ''_'' @ unique_id e @ ''.wat'')"
    if "fst (compile_to_wasm src f e w) = Inr r" and "success r" for r f
    using compile_to_wasm_success [OF that] by (auto simp: artifact_def final_wat_name_def)
  have pers: "\<exists>wat. generate_wat_from_c_analysis src = Inr wat
                \<and> files (snd (compile_to_wasm src ''my.code.c'' e w))
                     (path_join (wasm_dir e) (''myode_'' @ unique_id e @ ''.wat''))
                   = Some wat"
    if run: "fst (compile_to_wasm src ''my.code.c'' e w) = Inr r" and good: "success r"
      and out: "\<not> starts_with (tmp_name e @ ''/'')
               (path_join (wasm_dir e) (''myode_'' @ unique_id e @ ''.wat''))" for r
  proof -
    obtain wat where gen: "generate_wat_from_c_analysis src = Inr wat"
      and ok: "\<forall>op \<in> set (performed_ops ''my.code.c'' e). fault e op = None"
      using compile_to_wasm_success_iff [OF run] good by auto
    have n: "final_wat_name ''my.code.c'' e = ''myode_'' @ unique_id e @ ''.wat''"
      by (simp add: final_wat_name_def ex)
    show ?thesis
      using compile_to_wasm_persists [OF gen ok, of w] out by (simp add: n gen)
  qed
  have app: "base_name (a @ ''.c'' @ b) = base_name a @ base_name b"
    unfolding base_name_def by (rule replace_dot_c_append)
  have name': "wasm_file r = Some (''myode_'' @ unique_id e @ ''.wat'')"
    if "fst (compile_to_wasm src ''my.code.c'' e w) = Inr r" and "success r" for r
    using name [OF that] by (simp add: ex)
  show ?thesis
    using app ex name name' pers by blast
qed

theorem base_name_removes_every_dot_c_witness:
  "fst (compile_to_wasm ''int main() { return 0; }'' ''my.code.c'' env0 world0)
     = Inr (artifact default_wat ''my.code.c'' env0)
   \<and> success (artifact default_wat ''my.code.c'' env0)
   \<and> wasm_file (artifact default_wat ''my.code.c'' env0)
       = Some ''myode_12345678.wat''
   \<and> generate_wat_from_c_analysis ''int main() { return 0; }'' = Inr default_wat
   \<and> files (snd (compile_to_wasm ''int main() { return 0; }'' ''my.code.c'' env0 world0))
       ''/home/zk/agentkit/zkengine/example_wasms/myode_12345678.wat''
       = Some default_wat"
proof -
  let ?src = "''int main() { return 0; }''"
  have gen: "generate_wat_from_c_analysis ?src = Inr default_wat"
    by (simp add: generate_wat_from_c_analysis_def match_fingerprint_def lower_def lower_char_def)
  have run: "fst (compile_to_wasm ?src ''my.code.c'' env0 world0)
               = Inr (artifact default_wat ''my.code.c'' env0)"
    by (rule compile_to_wasm_ok [OF gen]) (simp add: env0_no_fault)
  have ok: "success (artifact default_wat ''my.code.c'' env0)"
    by (simp add: artifact_def)
  have path: "path_join (wasm_dir env0) ''myode_12345678.wat''
                = ''/home/zk/agentkit/zkengine/example_wasms/myode_12345678.wat''"
    by (simp add: path_join_def wasm_dir_env0)
  have out: "\<not> starts_with (tmp_name env0 @ ''/'')
                 (path_join (wasm_dir env0) ''myode_12345678.wat'')"
    unfolding path by (simp add: env0_def)
  show ?thesis
    using base_name_removes_every_dot_c [of "[]" "[]" ?src "''my.code.c''" env0 world0]
      run ok out gen
    by (simp add: unique_id_env0 path)
qed

end
